theory Spec2Isabelle
  imports Complex_Main "HOL-Library.Sublist" "HOL-Library.Word"
begin

chapter \<open>Get Data from Steam / SteamDB: the acquisition, scraping and export core\<close>

text \<open>
  The userscript is embedded function by function.  A value that may be \<^verbatim>\<open>null\<close> or
  \<^verbatim>\<open>undefined\<close> is an \<^typ>\<open>'a option\<close>; an exception is the left summand of a sum
  type.  Object shapes follow the JSDoc typedefs at the end of the script.
\<close>

section \<open>Strings\<close>

text \<open>
  A JavaScript string is a sequence of 16-bit code units.  \<open>str\<close> is the string that a
  literal of the script denotes, for the literals made of characters below U+0100 (all
  literals of the script are ASCII).  Tag names, attribute names, the names of query
  parameters and selectors, which the script writes as literals and the platform only
  compares with each other, stay Isabelle strings.
\<close>

type_synonym code_unit = "16 word"

type_synonym js_string = "code_unit list"

definition str :: "string \<Rightarrow> js_string" where
  "str s = map of_char s"

text \<open>
  \<^verbatim>\<open>String.prototype.trim\<close> strips white space and line terminators from both ends.
  White space is TAB, VT, FF, the byte order mark U+FEFF and the space separators of
  Unicode (SP, NBSP, U+1680, U+2000 to U+200A, U+202F, U+205F, U+3000); the line
  terminators are LF, CR, U+2028 and U+2029.  All of them are single code units.
\<close>

definition is_white_space :: "code_unit \<Rightarrow> bool" where
  "is_white_space c =
     (c = 0x0009 \<or> c = 0x000B \<or> c = 0x000C \<or> c = 0xFEFF \<or>
      c = 0x0020 \<or> c = 0x00A0 \<or> c = 0x1680 \<or> (0x2000 \<le> c \<and> c \<le> 0x200A) \<or>
      c = 0x202F \<or> c = 0x205F \<or> c = 0x3000 \<or>
      c = 0x000A \<or> c = 0x000D \<or> c = 0x2028 \<or> c = 0x2029)"

definition trim :: "js_string \<Rightarrow> js_string" where
  "trim s = rev (dropWhile is_white_space (rev (dropWhile is_white_space s)))"

text \<open>\<^verbatim>\<open>utils.text(value)\<close>: the empty string for null and undefined, the trimmed text otherwise.\<close>

definition text_of :: "js_string option \<Rightarrow> js_string" where
  "text_of v = (case v of None \<Rightarrow> [] | Some s \<Rightarrow> trim s)"

text \<open>\<^verbatim>\<open>a || b\<close> on strings that may be undefined: the empty string is falsy.\<close>

definition or_else :: "js_string option \<Rightarrow> js_string option \<Rightarrow> js_string option" where
  "or_else a b = (case a of None \<Rightarrow> b | Some s \<Rightarrow> if s = [] then b else Some s)"

text \<open>\<^verbatim>\<open>xs[i]\<close> on an array or a NodeList: undefined out of range.\<close>

definition nth_opt :: "'a list \<Rightarrow> nat \<Rightarrow> 'a option" where
  "nth_opt xs i = (if i < length xs then Some (xs ! i) else None)"

text \<open>Number to string conversion of a natural number, and of an integer.\<close>

fun decimal :: "nat \<Rightarrow> js_string" where
  "decimal n =
     (if n < 10 then [str ''0123456789'' ! n]
      else decimal (n div 10) @ [str ''0123456789'' ! (n mod 10)])"

declare decimal.simps [simp del]

definition String_of_int :: "int \<Rightarrow> js_string" where
  "String_of_int i = (if i < 0 then str ''-'' @ decimal (nat (- i)) else decimal (nat i))"

text \<open>\<^verbatim>\<open>Array.prototype.join\<close>.\<close>

fun join :: "js_string \<Rightarrow> js_string list \<Rightarrow> js_string" where
  "join sep [] = []"
| "join sep [x] = x"
| "join sep (x # y # ys) = x @ sep @ join sep (y # ys)"

section \<open>SteamDbScraper.deduplicate\<close>

text \<open>
  The helper walks the list once with \<^verbatim>\<open>forEach\<close>, carrying the set \<^verbatim>\<open>seen\<close> of
  keys met so far and the array \<^verbatim>\<open>result\<close>.  The callback returns early when
  \<^verbatim>\<open>!key || seen.has(key)\<close>; the resolver yields a string, and the only falsy string
  is the empty one.
\<close>

definition dedup_step :: "('a \<Rightarrow> js_string) \<Rightarrow> js_string set \<times> 'a list \<Rightarrow> 'a \<Rightarrow> js_string set \<times> 'a list" where
  "dedup_step resolver st entry =
     (let key = resolver entry in
      if key = [] \<or> key \<in> fst st then st
      else (insert key (fst st), snd st @ [entry]))"

definition deduplicate :: "'a list \<Rightarrow> ('a \<Rightarrow> js_string) \<Rightarrow> 'a list" where
  "deduplicate list resolver = snd (foldl (dedup_step resolver) ({}, []) list)"

text \<open>
  The entries that survive when the keys in \<open>S\<close> have been seen already: the loop above,
  written as a recursion on the list, for the proofs.
\<close>

fun kept_after :: "('a \<Rightarrow> js_string) \<Rightarrow> js_string set \<Rightarrow> 'a list \<Rightarrow> 'a list" where
  "kept_after f S [] = []"
| "kept_after f S (x # xs) =
     (if f x = [] \<or> f x \<in> S then kept_after f S xs
      else x # kept_after f (insert (f x) S) xs)"

section \<open>The page: a DOM tree and the selectors the scraper uses\<close>

text \<open>
  A node is a text node or an element with a lower-case tag name, its attributes and its
  children.  \<^verbatim>\<open>textContent\<close> concatenates the text of all descendants.
\<close>

datatype node = TextNode js_string | Element string "(string \<times> js_string) list" "node list"

fun textContent :: "node \<Rightarrow> js_string" where
  "textContent (TextNode s) = s"
| "textContent (Element t as cs) = concat (map textContent cs)"

fun getAttribute :: "node \<Rightarrow> string \<Rightarrow> js_string option" where
  "getAttribute (TextNode s) a = None"
| "getAttribute (Element t as cs) a = map_of as a"

text \<open>
  What a selector looks at in an element: its 1-based position among the element
  children of its parent, its tag name and its attributes.  A located element is an
  element of the tree with this summary of its ancestors (nearest first) and of itself.
  \<open>elements_under\<close> lists the elements below a node in document order.
\<close>

type_synonym tagged = "nat \<times> string \<times> (string \<times> js_string) list"

type_synonym located = "tagged list \<times> tagged \<times> node"

fun elements_under :: "tagged list \<Rightarrow> nat \<Rightarrow> node \<Rightarrow> located list"
  and elements_among :: "tagged list \<Rightarrow> nat \<Rightarrow> node list \<Rightarrow> located list" where
  "elements_under up i (TextNode s) = []"
| "elements_under up i (Element t as cs) = elements_among ((i, t, as) # up) 1 cs"
| "elements_among up i [] = []"
| "elements_among up i (TextNode s # ns) = elements_among up i ns"
| "elements_among up i (Element t as cs # ns) =
     (up, (i, t, as), Element t as cs) # elements_under up i (Element t as cs)
       @ elements_among up (Suc i) ns"

text \<open>
  The simple selectors of the script: a tag (\<^verbatim>\<open>td\<close>), an id (\<^verbatim>\<open>#dlc\<close>) and a tag
  with a sibling position (\<^verbatim>\<open>td:nth-child(2)\<close>).  A selector list is a chain of simple
  selectors joined by the descendant combinator: the element matches the last one, and
  its ancestors match the others in order.
\<close>

datatype selector = Tag string | Id string | TagNthChild string nat

fun matches :: "selector \<Rightarrow> tagged \<Rightarrow> bool" where
  "matches (Tag t) (i, g, as) = (g = t)"
| "matches (Id d) (i, g, as) = (map_of as ''id'' = Some (str d))"
| "matches (TagNthChild t k) (i, g, as) = (g = t \<and> i = k)"

fun ancestors_match :: "selector list \<Rightarrow> tagged list \<Rightarrow> bool" where
  "ancestors_match [] up = True"
| "ancestors_match (s # ss) [] = False"
| "ancestors_match (s # ss) (a # up) =
     (if matches s a then ancestors_match ss up else ancestors_match (s # ss) up)"

definition matches_chain :: "selector list \<Rightarrow> located \<Rightarrow> bool" where
  "matches_chain sels l =
     (case rev sels of [] \<Rightarrow> False
      | s # outer \<Rightarrow> matches s (fst (snd l)) \<and> ancestors_match outer (fst l))"

text \<open>
  \<^verbatim>\<open>element.querySelectorAll\<close> and \<^verbatim>\<open>element.querySelector\<close> search the proper
  descendants of the element; \<^verbatim>\<open>document.querySelectorAll\<close> searches the whole tree,
  the root element included.
\<close>

definition querySelectorAll :: "selector list \<Rightarrow> node \<Rightarrow> node list" where
  "querySelectorAll sels e =
     map (\<lambda>l. snd (snd l)) (filter (matches_chain sels) (elements_under [] 1 e))"

definition querySelector :: "selector list \<Rightarrow> node \<Rightarrow> node option" where
  "querySelector sels e = (case querySelectorAll sels e of [] \<Rightarrow> None | x # xs \<Rightarrow> Some x)"

definition document_querySelectorAll :: "selector list \<Rightarrow> node \<Rightarrow> node list" where
  "document_querySelectorAll sels doc =
     map (\<lambda>l. snd (snd l)) (filter (matches_chain sels) (elements_among [] 1 [doc]))"

section \<open>SteamDbScraper: the three collection operations\<close>

record SteamDbDlcEntry =
  dlc_id :: js_string
  dlc_name :: js_string

record SteamDbAchievementEntry =
  ach_name :: js_string
  displayName :: js_string
  description :: js_string
  icon :: js_string
  iconGray :: js_string

record SteamDbDepotEntry =
  depot_id :: js_string
  depot_name :: js_string
  manifests :: js_string
  osList :: js_string

text \<open>
  Two expressions that the DLC and the depot callbacks share:
  \<^verbatim>\<open>row.getAttribute(attr) ?? utils.text(cells[0]?.textContent)\<close> and
  \<^verbatim>\<open>cells[1] ?? cells[0]\<close>, with \<^verbatim>\<open>cells = row.querySelectorAll("td")\<close>.
\<close>

definition row_id :: "string \<Rightarrow> node \<Rightarrow> js_string" where
  "row_id attr row =
     (case getAttribute row attr of
        Some v \<Rightarrow> v
      | None \<Rightarrow> text_of (map_option textContent (nth_opt (querySelectorAll [Tag ''td''] row) 0)))"

definition name_cell :: "node \<Rightarrow> node option" where
  "name_cell row =
     (let cells = querySelectorAll [Tag ''td''] row in
      case nth_opt cells 1 of Some c \<Rightarrow> Some c | None \<Rightarrow> nth_opt cells 0)"

text \<open>
  The callback of \<^verbatim>\<open>rows.forEach\<close> in \<^verbatim>\<open>collectDlc\<close>, as a function from the
  array \<^verbatim>\<open>items\<close> before the row to the array after it.
\<close>

definition dlc_row :: "SteamDbDlcEntry list \<Rightarrow> node \<Rightarrow> SteamDbDlcEntry list" where
  "dlc_row items row =
     (let cells = querySelectorAll [Tag ''td''] row in
      if length cells = 0 then items
      else
        let id = row_id ''data-appid'' row in
        if id = [] then items
        else
          let nameCell = name_cell row;
              nameLink = (case nameCell of None \<Rightarrow> None | Some c \<Rightarrow> querySelector [Tag ''a''] c);
              name = text_of (or_else (map_option textContent nameLink)
                                       (map_option textContent nameCell))
          in items @ [\<lparr>dlc_id = trim id,
                         dlc_name = (if name = [] then str ''DLC '' @ trim id else name)\<rparr>])"

text \<open>
  \<^verbatim>\<open>collectDlc\<close> is the query for the rows followed by the loop over them and the
  deduplication; the part after the query is named so that it can be applied to any row
  list.
\<close>

definition dlc_of_rows :: "node list \<Rightarrow> SteamDbDlcEntry list" where
  "dlc_of_rows rows = (let items = foldl dlc_row [] rows in deduplicate items dlc_id)"

definition collectDlc :: "node \<Rightarrow> SteamDbDlcEntry list" where
  "collectDlc doc =
     dlc_of_rows
       (document_querySelectorAll [Id ''dlc'', Tag ''table'', Tag ''tbody'', Tag ''tr''] doc)"

definition attribute_or_empty :: "node option \<Rightarrow> string \<Rightarrow> js_string" where
  "attribute_or_empty e a =
     (case e of None \<Rightarrow> []
      | Some n \<Rightarrow> (case getAttribute n a of None \<Rightarrow> [] | Some v \<Rightarrow> v))"

text \<open>
  \<^verbatim>\<open>row.getAttribute("data-name") ?? utils.text(row.querySelector("td:nth-child(2)")?.textContent)\<close>
\<close>

definition api_name :: "node \<Rightarrow> js_string" where
  "api_name row =
     (case getAttribute row ''data-name'' of
        Some v \<Rightarrow> v
      | None \<Rightarrow> text_of (map_option textContent (querySelector [TagNthChild ''td'' 2] row)))"

definition achievement_row ::
  "SteamDbAchievementEntry list \<Rightarrow> node \<Rightarrow> SteamDbAchievementEntry list" where
  "achievement_row items row =
     (let apiName = api_name row in
      if apiName = [] then items
      else
        let shown = text_of (map_option textContent (querySelector [TagNthChild ''td'' 3] row));
            descr = text_of (map_option textContent (querySelector [TagNthChild ''td'' 4] row));
            img = querySelector [Tag ''img''] row
        in items @ [\<lparr>ach_name = apiName,
                       displayName = (if shown = [] then apiName else shown),
                       description = descr,
                       icon = attribute_or_empty img ''src'',
                       iconGray = attribute_or_empty img ''data-hover-src''\<rparr>])"

definition achievements_of_rows :: "node list \<Rightarrow> SteamDbAchievementEntry list" where
  "achievements_of_rows rows =
     (let items = foldl achievement_row [] rows in deduplicate items ach_name)"

definition collectAchievements :: "node \<Rightarrow> SteamDbAchievementEntry list" where
  "collectAchievements doc =
     achievements_of_rows
       (document_querySelectorAll
          [Id ''achievements'', Tag ''table'', Tag ''tbody'', Tag ''tr''] doc)"

definition depot_row :: "SteamDbDepotEntry list \<Rightarrow> node \<Rightarrow> SteamDbDepotEntry list" where
  "depot_row items row =
     (let cells = querySelectorAll [Tag ''td''] row in
      if length cells = 0 then items
      else
        let id = row_id ''data-depotid'' row in
        if id = [] then items
        else
          let nameCell = name_cell row;
              shown = text_of (map_option textContent nameCell);
              name = (if shown = [] then str ''Depot '' @ trim id else shown);
              mans = text_of (map_option textContent (nth_opt cells 2));
              os = text_of (getAttribute row ''data-os'')
          in items @ [\<lparr>depot_id = trim id, depot_name = name, manifests = mans, osList = os\<rparr>])"

definition depots_of_rows :: "node list \<Rightarrow> SteamDbDepotEntry list" where
  "depots_of_rows rows = (let items = foldl depot_row [] rows in deduplicate items depot_id)"

definition collectDepots :: "node \<Rightarrow> SteamDbDepotEntry list" where
  "collectDepots doc =
     depots_of_rows
       (document_querySelectorAll [Id ''depots'', Tag ''table'', Tag ''tbody'', Tag ''tr''] doc)"

section \<open>The exporters\<close>

text \<open>
  The panel's DLC list holds scraped entries or bare id strings
  (\<^verbatim>\<open>Array<SteamDbDlcEntry | string>\<close>); the exporter tells them apart with
  \<^verbatim>\<open>typeof item === "string"\<close>.
\<close>

datatype dlc_item = Bare js_string | Rich SteamDbDlcEntry

definition item_id :: "dlc_item \<Rightarrow> js_string" where
  "item_id item = (case item of Bare s \<Rightarrow> s | Rich e \<Rightarrow> dlc_id e)"

definition item_name :: "dlc_item \<Rightarrow> js_string" where
  "item_name item = (case item of Bare s \<Rightarrow> str ''DLC '' @ s | Rich e \<Rightarrow> dlc_name e)"

text \<open>
  What the exporter and the panel's DLC list make of an item: the record with this id
  and this name.
\<close>

definition as_record :: "dlc_item \<Rightarrow> SteamDbDlcEntry" where
  "as_record item = \<lparr>dlc_id = item_id item, dlc_name = item_name item\<rparr>"

definition cream_line :: "nat \<times> dlc_item \<Rightarrow> js_string" where
  "cream_line p =
     (case p of (index, item) \<Rightarrow>
        str ''dlc'' @ decimal (index + 1) @ str '' = '' @ item_id item @ str '' ; '' @ item_name item)"

definition creamApi :: "js_string \<Rightarrow> dlc_item list \<Rightarrow> js_string" where
  "creamApi app dlcEntries =
     (let body = join (str ''\<newline>'') (map cream_line (enumerate 0 dlcEntries)) in
      str ''; cream_api autogenerated by Get Data from Steam / SteamDB\<newline>[steam]\<newline>appid = ''
        @ app @ str ''\<newline>\<newline>[dlc]\<newline>'' @ body)"

text \<open>\<^verbatim>\<open>exporters.achievementsIni\<close>: the header line and one line \<^verbatim>\<open><name>=1\<close> per record.\<close>

definition achievementsIni :: "SteamDbAchievementEntry list \<Rightarrow> js_string" where
  "achievementsIni achs =
     (let header = str ''[Achievements]'';
          lines = map (\<lambda>item. ach_name item @ str ''=1'') achs
      in header @ str ''\<newline>'' @ join (str ''\<newline>'') lines)"

text \<open>
  \<^verbatim>\<open>exporters.depotsCsv\<close>: every field is put between double quotes, with each double
  quote inside it doubled (\<^verbatim>\<open>value.replace(/"/g, '""')\<close>); the fields of a row are
  joined by commas, the header and the rows by line feeds.
\<close>

definition csv_field :: "js_string \<Rightarrow> js_string" where
  "csv_field v =
     [0x22] @ concat (map (\<lambda>c. if c = 0x22 then [0x22, 0x22] else [c]) v)
       @ [0x22]"

definition depotsCsv :: "SteamDbDepotEntry list \<Rightarrow> js_string" where
  "depotsCsv deps =
     (let header = str ''depot_id,name,manifests,os_list'';
          rows = map (\<lambda>depot. join (str '','') (map csv_field
                        [depot_id depot, depot_name depot, manifests depot, osList depot])) deps
      in join (str ''\<newline>'') (header # rows))"

section \<open>AppDataClient.normalize\<close>

text \<open>
  The response data has the shape of the typedef \<^verbatim>\<open>SteamApiAppData\<close>: every field is
  optional, and \<open>None\<close> is an absent property.  The one field the script compares
  rather than copies or maps, \<^verbatim>\<open>coming_soon\<close>, is kept as the JSON value the API sent,
  since \<^verbatim>\<open>===\<close> tells \<^verbatim>\<open>false\<close> from every other value.
\<close>

datatype json = JNull | JBool bool | JNum int | JStr js_string | JArr "json list"
  | JObj "(js_string \<times> json) list"

record ReleaseDate =
  date :: "js_string option"
  coming_soon :: "json option"

record PriceOverview =
  final_formatted :: "js_string option"

record Platforms =
  windows :: "bool option"
  mac :: "bool option"
  linux :: "bool option"

record Sub =
  packageid :: int
  title :: js_string
  price_in_cents_with_discount :: int
  discount_pct :: int

record PackageGroup =
  subs :: "Sub list option"

record SteamApiAppData =
  data_name :: "js_string option"
  data_type :: "js_string option"
  release_date :: "ReleaseDate option"
  price_overview :: "PriceOverview option"
  data_developers :: "js_string list option"
  data_publishers :: "js_string list option"
  package_groups :: "PackageGroup list option"
  data_platforms :: "Platforms option"
  data_dlc :: "int list option"

record Package =
  package_id :: js_string
  package_title :: js_string
  price :: rat
  discount :: int

record AppPayload =
  appId :: js_string
  name :: "js_string option"
  type :: "js_string option"
  releaseDate :: "js_string option"
  isReleased :: bool
  developers :: "js_string list"
  publishers :: "js_string list"
  priceOverview :: "PriceOverview option"
  platforms :: Platforms
  dlc :: "js_string list"
  packages :: "Package list"
  fetchedAt :: js_string

text \<open>The empty object \<^verbatim>\<open>{}\<close> of \<^verbatim>\<open>data ?? {}\<close>.\<close>

definition no_data :: SteamApiAppData where
  "no_data =
     \<lparr>data_name = None, data_type = None, release_date = None, price_overview = None,
      data_developers = None, data_publishers = None, package_groups = None,
      data_platforms = None, data_dlc = None\<rparr>"

text \<open>A destructuring default: \<^verbatim>\<open>x = d\<close> takes \<open>d\<close> when the property is undefined.\<close>

definition default_to :: "'a \<Rightarrow> 'a option \<Rightarrow> 'a" where
  "default_to d v = (case v of None \<Rightarrow> d | Some x \<Rightarrow> x)"

definition package_of :: "Sub \<Rightarrow> Package" where
  "package_of entry =
     \<lparr>package_id = String_of_int (packageid entry),
      package_title = title entry,
      price = of_int (price_in_cents_with_discount entry) / 100,
      discount = discount_pct entry\<rparr>"

text \<open>
  \<open>now\<close> is the reading of the clock, \<^verbatim>\<open>new Date().toISOString()\<close>, at the moment of
  the call.
\<close>

definition normalize :: "js_string \<Rightarrow> js_string \<Rightarrow> SteamApiAppData option \<Rightarrow> AppPayload" where
  "normalize now app data =
     (let d = default_to no_data data;
          rd = release_date d;
          devs = default_to [] (data_developers d);
          pubs = default_to [] (data_publishers d);
          packageGroups = default_to [] (package_groups d);
          plats = default_to \<lparr>windows = None, mac = None, linux = None\<rparr> (data_platforms d);
          ids = default_to [] (data_dlc d);
          pkgs = concat (map (\<lambda>group. case subs group of None \<Rightarrow> []
                                          | Some entries \<Rightarrow> map package_of entries)
                             packageGroups)
      in \<lparr>appId = app,
          name = data_name d,
          type = data_type d,
          releaseDate = (case rd of None \<Rightarrow> None | Some r \<Rightarrow> date r),
          isReleased = ((case rd of None \<Rightarrow> None | Some r \<Rightarrow> coming_soon r) = Some (JBool False)),
          developers = devs,
          publishers = pubs,
          priceOverview = price_overview d,
          platforms = plats,
          dlc = map String_of_int ids,
          packages = pkgs,
          fetchedAt = now\<rparr>)"

section \<open>The cache: sessionStorage behind readCache and writeCache\<close>

datatype js_error = Error js_string | AbortError | TypeError | SyntaxError | SecurityError
  | QuotaExceededError

text \<open>
  The session storage of the page: its items, whether the browser has storage disabled
  (every access throws), and which writes it refuses for lack of room.
\<close>

record storage =
  items :: "js_string \<rightharpoonup> js_string"
  disabled :: bool
  rejects :: "js_string \<Rightarrow> js_string \<Rightarrow> bool"

definition getItem :: "storage \<Rightarrow> js_string \<Rightarrow> js_error + js_string option" where
  "getItem st key = (if disabled st then Inl SecurityError else Inr (items st key))"

definition setItem :: "storage \<Rightarrow> js_string \<Rightarrow> js_string \<Rightarrow> js_error + storage" where
  "setItem st key v =
     (if disabled st then Inl SecurityError
      else if rejects st key v then Inl QuotaExceededError
      else Inr (st\<lparr>items := (items st)(key \<mapsto> v)\<rparr>))"

text \<open>
  \<^verbatim>\<open>JSON.parse\<close> and \<^verbatim>\<open>JSON.stringify\<close> are built into the platform; the client is
  embedded over any pair of them.  Parsing throws or yields
  \<^verbatim>\<open>AppPayload | null\<close>.
\<close>

record codec =
  JSON_parse :: "js_string \<Rightarrow> js_error + AppPayload option"
  JSON_stringify :: "AppPayload \<Rightarrow> js_string"

definition readCache :: "codec \<Rightarrow> storage \<Rightarrow> js_string \<Rightarrow> AppPayload option" where
  "readCache js st key =
     (case getItem st key of
        Inl e \<Rightarrow> None
      | Inr None \<Rightarrow> None
      | Inr (Some raw) \<Rightarrow>
          if raw = [] then None
          else (case JSON_parse js raw of Inl e \<Rightarrow> None | Inr v \<Rightarrow> v))"

definition writeCache :: "codec \<Rightarrow> storage \<Rightarrow> js_string \<Rightarrow> AppPayload \<Rightarrow> storage" where
  "writeCache js st key v =
     (case setItem st key (JSON_stringify js v) of Inl e \<Rightarrow> st | Inr st' \<Rightarrow> st')"

section \<open>AppDataClient.fetch\<close>

text \<open>
  The body of the response, once parsed: a mapping from app ids to entries, or
  \<^verbatim>\<open>null\<close>.
\<close>

record SteamApiResponse =
  success :: bool
  data :: "SteamApiAppData option"

type_synonym payload = "(js_string \<times> SteamApiResponse) list option"

text \<open>
  What the method reads and changes besides its arguments: the field
  \<^verbatim>\<open>this.controller\<close>; the \<^verbatim>\<open>AbortController\<close> objects created so far, numbered in
  order of creation, and which of them have been aborted; the session storage; and the
  calls made on the network side (\<^verbatim>\<open>abort()\<close> on a controller, \<^verbatim>\<open>fetch(url, {signal})\<close>
  with the query parameters that are set on the fixed endpoint \<^verbatim>\<open>STEAM_STORE_API\<close>), in
  the order they are made.
\<close>

datatype event = Aborted nat | Requested nat "(string \<times> js_string) list"

record world =
  controller :: "nat option"
  aborted :: "nat set"
  allocated :: nat
  session :: storage
  trace :: "event list"

definition searchParams :: "js_string \<Rightarrow> (string \<times> js_string) list" where
  "searchParams app =
     [(''appids'', app), (''cc'', str ''us''), (''l'', str ''english''),
      (''filters'',
       str ''basic,price_overview,package_groups,platforms,release_date,developers,publishers,dlc'')]"

definition cacheKey :: "js_string \<Rightarrow> js_string" where
  "cacheKey app = str ''gds:store:'' @ app"

text \<open>
  The method suspends twice, at \<^verbatim>\<open>await fetch(...)\<close> and at
  \<^verbatim>\<open>await response.json()\<close>.  Its three synchronous stretches are embedded one by
  one.  The first runs from the entry to the first \<^verbatim>\<open>await\<close>: it returns the cached
  record, or aborts the previous controller, installs a new one and issues the request.
\<close>

definition fetch_begin :: "codec \<Rightarrow> world \<Rightarrow> js_string \<Rightarrow> bool \<Rightarrow> world \<times> (AppPayload + nat)" where
  "fetch_begin js w app forceRefresh =
     (case (if forceRefresh then None else readCache js (session w) (cacheKey app)) of
        Some cached \<Rightarrow> (w, Inl cached)
      | None \<Rightarrow>
          let w1 = (case controller w of
                      None \<Rightarrow> w
                    | Some c \<Rightarrow> w\<lparr>aborted := insert c (aborted w),
                                   trace := trace w @ [Aborted c]\<rparr>);
              c' = allocated w1;
              w2 = w1\<lparr>controller := Some c', allocated := Suc c'\<rparr>;
              w3 = w2\<lparr>trace := trace w2 @ [Requested c' (searchParams app)]\<rparr>
          in (w3, Inr c'))"

text \<open>
  The second stretch starts when the request resolves with a response of the given
  status: \<^verbatim>\<open>response.ok\<close> holds for the statuses 200 to 299.  It throws, or goes on to
  read the body.
\<close>

definition ok :: "nat \<Rightarrow> bool" where
  "ok status = (200 \<le> status \<and> status \<le> 299)"

definition fetch_response :: "nat \<Rightarrow> js_error option" where
  "fetch_response status =
     (if \<not> ok status then Some (Error (str ''Steam Store API responded with '' @ decimal status))
      else None)"

text \<open>
  The third stretch starts when the body has been parsed: the success check, the
  normalization, the cache write and the return.
\<close>

definition fetch_body ::
  "codec \<Rightarrow> js_string \<Rightarrow> world \<Rightarrow> js_string \<Rightarrow> payload \<Rightarrow> world \<times> (js_error + AppPayload)" where
  "fetch_body js now w app body =
     (let entry = (case body of None \<Rightarrow> None | Some m \<Rightarrow> map_of m app) in
      if \<not> (case entry of None \<Rightarrow> False | Some e \<Rightarrow> success e)
      then (w, Inl (Error (str ''Steam Store API returned an empty response'')))
      else
        let normalized = normalize now app (case entry of None \<Rightarrow> None | Some e \<Rightarrow> data e)
        in (w\<lparr>session := writeCache js (session w) (cacheKey app) normalized\<rparr>, Inr normalized))"

text \<open>
  A call that no other call overlaps.  The network either lets the request fail, or
  answers with a status and a body whose reading fails or yields the parsed payload;
  a rejected \<^verbatim>\<open>await\<close> throws out of the method.
\<close>

datatype reply = NoReply js_error | Reply nat "js_error + payload"

definition fetch ::
  "codec \<Rightarrow> reply \<Rightarrow> js_string \<Rightarrow> world \<Rightarrow> js_string \<Rightarrow> bool \<Rightarrow> world \<times> (js_error + AppPayload)" where
  "fetch js net now w app forceRefresh =
     (case fetch_begin js w app forceRefresh of
        (w1, Inl cached) \<Rightarrow> (w1, Inr cached)
      | (w1, Inr signal) \<Rightarrow>
          (case net of
             NoReply e \<Rightarrow> (w1, Inl e)
           | Reply status body \<Rightarrow>
               (case fetch_response status of
                  Some e \<Rightarrow> (w1, Inl e)
                | None \<Rightarrow>
                    (case body of
                       Inl e \<Rightarrow> (w1, Inl e)
                     | Inr parsed \<Rightarrow> fetch_body js now w1 app parsed))))"

text \<open>
  Overlapping calls.  A configuration holds the world and the calls made so far on one
  client, each with the signal of its request (none when it was served from the cache)
  and how far it has come.  An action starts a new call or resumes a suspended one: with
  the response to its request, with the parsed body of the response and the reading of
  the clock, or with a rejection of the pending \<^verbatim>\<open>await\<close>.  The method does not look at
  its signal after an \<^verbatim>\<open>await\<close>: it goes on with whatever settles the promise it waits
  for, so an action is possible whenever the call it addresses is suspended at the
  matching \<^verbatim>\<open>await\<close>, whether the signal of the call has been aborted or not.  An action
  that is not possible in a configuration yields \<open>None\<close>.
\<close>

datatype phase = AwaitingResponse | AwaitingBody | Finished "js_error + AppPayload"

record call =
  call_app :: js_string
  call_signal :: "nat option"
  call_phase :: phase

record config =
  world_of :: world
  calls :: "call list"

datatype action = Start js_string bool | Response nat nat | Body nat js_string payload
  | Rejection nat js_error

definition pending :: "call \<Rightarrow> bool" where
  "pending k = (call_phase k = AwaitingResponse \<or> call_phase k = AwaitingBody)"

definition suspended_at :: "config \<Rightarrow> nat \<Rightarrow> phase \<Rightarrow> bool" where
  "suspended_at c i ph = (i < length (calls c) \<and> call_phase (calls c ! i) = ph)"

definition set_phase :: "config \<Rightarrow> nat \<Rightarrow> phase \<Rightarrow> config" where
  "set_phase c i ph = c\<lparr>calls := (calls c)[i := (calls c ! i)\<lparr>call_phase := ph\<rparr>]\<rparr>"

fun perform :: "codec \<Rightarrow> config \<Rightarrow> action \<Rightarrow> config option" where
  "perform js c (Start app forceRefresh) =
     (case fetch_begin js (world_of c) app forceRefresh of
        (w', Inl cached) \<Rightarrow>
          Some \<lparr>world_of = w',
                calls = calls c @ [\<lparr>call_app = app, call_signal = None,
                                    call_phase = Finished (Inr cached)\<rparr>]\<rparr>
      | (w', Inr s) \<Rightarrow>
          Some \<lparr>world_of = w',
                calls = calls c @ [\<lparr>call_app = app, call_signal = Some s,
                                    call_phase = AwaitingResponse\<rparr>]\<rparr>)"
| "perform js c (Response i status) =
     (if suspended_at c i AwaitingResponse
      then Some (set_phase c i (case fetch_response status of
                                  Some e \<Rightarrow> Finished (Inl e) | None \<Rightarrow> AwaitingBody))
      else None)"
| "perform js c (Body i now parsed) =
     (if suspended_at c i AwaitingBody
      then (case fetch_body js now (world_of c) (call_app (calls c ! i)) parsed of
              (w', r) \<Rightarrow> Some (set_phase (c\<lparr>world_of := w'\<rparr>) i (Finished r)))
      else None)"
| "perform js c (Rejection i e) =
     (if i < length (calls c) \<and> pending (calls c ! i)
      then Some (set_phase c i (Finished (Inl e)))
      else None)"

text \<open>A sequence of actions, performed from left to right.\<close>

fun run :: "codec \<Rightarrow> config \<Rightarrow> action list \<Rightarrow> config option" where
  "run js c [] = Some c"
| "run js c (a # as) = (case perform js c a of None \<Rightarrow> None | Some c' \<Rightarrow> run js c' as)"

text \<open>
  The platform settles the request of an aborted signal, and the reading of its body,
  by rejection.  An action respects this when it delivers a response or a body only to a
  call whose signal is not aborted; a sequence of actions respects it when each of its
  actions does, in the configuration it is performed in.
\<close>

definition live :: "config \<Rightarrow> nat \<Rightarrow> bool" where
  "live c i =
     (i < length (calls c) \<and>
      (case call_signal (calls c ! i) of None \<Rightarrow> False
       | Some s \<Rightarrow> s \<notin> aborted (world_of c)))"

fun respects_abort :: "config \<Rightarrow> action \<Rightarrow> bool" where
  "respects_abort c (Start app forceRefresh) = True"
| "respects_abort c (Response i status) = live c i"
| "respects_abort c (Body i now parsed) = live c i"
| "respects_abort c (Rejection i e) = True"

fun run_respects_abort :: "codec \<Rightarrow> config \<Rightarrow> action list \<Rightarrow> bool" where
  "run_respects_abort js c [] = True"
| "run_respects_abort js c (a # as) =
     (respects_abort c a \<and>
      (case perform js c a of None \<Rightarrow> False | Some c' \<Rightarrow> run_respects_abort js c' as))"

text \<open>
  A fresh client on a page: \<^verbatim>\<open>this.controller = null\<close>, no controller created, no call
  made.
\<close>

definition fresh_client :: "storage \<Rightarrow> config" where
  "fresh_client st =
     \<lparr>world_of = \<lparr>controller = None, aborted = {}, allocated = 0, session = st, trace = []\<rparr>,
      calls = []\<rparr>"

text \<open>
  The signals of the requests that a trace has issued and not aborted since.
\<close>

fun track :: "nat set \<Rightarrow> event \<Rightarrow> nat set" where
  "track S (Aborted s) = S - {s}"
| "track S (Requested s q) = insert s S"

definition uncancelled :: "event list \<Rightarrow> nat set" where
  "uncancelled tr = foldl track {} tr"

text \<open>In a trace, the event \<open>a\<close> occurs and \<open>b\<close> occurs after its first occurrence.\<close>

fun precedes :: "event \<Rightarrow> event \<Rightarrow> event list \<Rightarrow> bool" where
  "precedes a b [] = False"
| "precedes a b (x # xs) = (if x = a then b \<in> set xs else precedes a b xs)"

text \<open>The signals of the calls that went to the network, in the order of the calls.\<close>

definition tokens_of :: "call list \<Rightarrow> nat list" where
  "tokens_of ks = concat (map (\<lambda>k. case call_signal k of None \<Rightarrow> [] | Some s \<Rightarrow> [s]) ks)"

text \<open>
  A suspended or failed call whose signal has been aborted.
\<close>

definition superseded :: "config \<Rightarrow> nat \<Rightarrow> bool" where
  "superseded c i =
     (i < length (calls c) \<and>
      (case call_signal (calls c ! i) of None \<Rightarrow> False | Some s \<Rightarrow> s \<in> aborted (world_of c)) \<and>
      (pending (calls c ! i) \<or> (\<exists>e. call_phase (calls c ! i) = Finished (Inl e))))"

text \<open>
  What holds in every configuration a fresh client can reach; the proofs below go
  through this invariant.
\<close>

definition client_inv :: "config \<Rightarrow> bool" where
  "client_inv c =
     ((\<forall>t\<in>aborted (world_of c). t < allocated (world_of c)) \<and>
      (\<forall>s. controller (world_of c) = Some s \<longrightarrow>
          allocated (world_of c) = Suc s \<and> s \<notin> aborted (world_of c)) \<and>
      (\<forall>t\<in>set (tokens_of (calls c)). controller (world_of c) \<noteq> Some t \<longrightarrow>
          Aborted t \<in> set (trace (world_of c))) \<and>
      (\<forall>t. Aborted t \<in> set (trace (world_of c)) \<longrightarrow> t \<in> aborted (world_of c)) \<and>
      (\<forall>i j si sj. i < j \<and> j < length (calls c) \<and> call_signal (calls c ! i) = Some si \<and>
          call_signal (calls c ! j) = Some sj \<longrightarrow>
          precedes (Aborted si) (Requested sj (searchParams (call_app (calls c ! j))))
            (trace (world_of c))) \<and>
      (\<forall>s. s \<in> uncancelled (trace (world_of c)) \<longrightarrow> controller (world_of c) = Some s) \<and>
      (\<forall>n\<le>length (trace (world_of c)). card (uncancelled (take n (trace (world_of c)))) \<le> 1))"

section \<open>The panel state and updateFromSteamDb\<close>

record PanelState =
  state_appId :: js_string
  store :: "AppPayload option"
  state_dlc :: "dlc_item list"
  achievements :: "SteamDbAchievementEntry list"
  depots :: "SteamDbDepotEntry list"
  loading :: bool
  hidden :: bool
  error :: "js_string option"

text \<open>
  The closure \<^verbatim>\<open>updateFromSteamDb\<close> of \<^verbatim>\<open>bootstrap\<close>, without the rendering:
  \<^verbatim>\<open>state.dlc = dlcEntries.length ? dlcEntries : state.store?.dlc ?? []\<close>.
\<close>

definition updateFromSteamDb :: "node \<Rightarrow> PanelState \<Rightarrow> PanelState" where
  "updateFromSteamDb doc state =
     (let dlcEntries = collectDlc doc;
          achs = collectAchievements doc;
          deps = collectDepots doc
      in state\<lparr>state_dlc :=
                  (if length dlcEntries \<noteq> 0 then map Rich dlcEntries
                   else (case store state of None \<Rightarrow> [] | Some p \<Rightarrow> map Bare (dlc p))),
                achievements := achs,
                depots := deps\<rparr>)"

section \<open>Example rows and pages\<close>

text \<open>
  Rows of the three tables, with the gaps the scraper has to absorb: a name cell that
  holds a no-break space (\<^verbatim>\<open>&nbsp;\<close>, U+00A0) and a space, under an id attribute that
  starts with a no-break space; a row without an id attribute whose id cell holds a
  no-break space; an id given only as cell text; a repeated id; an API name cell that
  holds an em space (U+2003); an id attribute made of a no-break space and a space.
\<close>

definition dlc_row_999 :: node where
  "dlc_row_999 =
     Element ''tr'' [(''data-appid'', 0x00A0 # str ''999'')]
       [Element ''td'' [] [TextNode (str ''999'')], TextNode (str '' ''),
        Element ''td'' [] [TextNode [0x00A0, 0x0020]]]"

definition dlc_row_without_id :: node where
  "dlc_row_without_id =
     Element ''tr'' []
       [Element ''td'' [] [TextNode [0x00A0]], Element ''td'' [] [TextNode (str ''No id here'')]]"

definition dlc_row_1000 :: node where
  "dlc_row_1000 =
     Element ''tr'' []
       [Element ''td'' [] [TextNode (str '' 1000 '')],
        Element ''td'' [] [Element ''a'' [(''href'', str ''/app/1000/'')] [TextNode (str ''Soundtrack'')]]]"

definition dlc_row_999_again :: node where
  "dlc_row_999_again =
     Element ''tr'' [(''data-appid'', str ''999'')]
       [Element ''td'' [] [TextNode (str ''999'')], Element ''td'' [] [TextNode (str ''Again'')]]"

definition achievement_row_win :: node where
  "achievement_row_win =
     Element ''tr'' [(''data-name'', str ''ACH_WIN'')]
       [Element ''td'' [] [Element ''img'' [(''src'', str ''win.jpg'')] []],
        Element ''td'' [] [TextNode (str ''ACH_WIN'')],
        Element ''td'' [] [],
        Element ''td'' [] [TextNode (str ''Win a round'')]]"

definition achievement_row_without_id :: node where
  "achievement_row_without_id =
     Element ''tr'' []
       [Element ''td'' [] [], Element ''td'' [] [TextNode [0x2003]],
        Element ''td'' [] [TextNode (str ''Ghost'')]]"

definition achievement_row_lose :: node where
  "achievement_row_lose =
     Element ''tr'' []
       [Element ''td'' [] [], Element ''td'' [] [TextNode (str ''ACH_LOSE'')],
        Element ''td'' [] [TextNode (str ''Lose'')]]"

definition depot_row_731 :: node where
  "depot_row_731 =
     Element ''tr'' [(''data-depotid'', str ''731''), (''data-os'', str ''windows'')]
       [Element ''td'' [] [TextNode (str ''731'')], Element ''td'' [] [],
        Element ''td'' [] [TextNode (str ''3 manifests'')]]"

definition depot_row_blank_id :: node where
  "depot_row_blank_id =
     Element ''tr'' [(''data-depotid'', [0x00A0, 0x0020])]
       [Element ''td'' [] [TextNode (str ''x'')], Element ''td'' [] [TextNode (str ''Blank id'')]]"

definition section_of :: "js_string \<Rightarrow> node list \<Rightarrow> node" where
  "section_of ident rows =
     Element ''div'' [(''id'', ident)]
       [Element ''table'' []
          [Element ''thead'' [] [Element ''tr'' [] [Element ''th'' [] [TextNode (str ''Id'')]]],
           Element ''tbody'' [] rows]]"

definition example_page :: node where
  "example_page =
     Element ''html'' []
       [Element ''body'' []
          [section_of (str ''dlc'') [dlc_row_999, dlc_row_without_id, dlc_row_1000, dlc_row_999_again],
           section_of (str ''achievements'')
             [achievement_row_win, achievement_row_without_id, achievement_row_lose],
           section_of (str ''depots'') [depot_row_731, depot_row_blank_id]]]"

definition empty_page :: node where
  "empty_page = Element ''html'' [] [Element ''body'' [] [Element ''h1'' [] [TextNode (str ''Steam'')]]]"

text \<open>
  A response, the record it normalizes to, a pair of stand-ins for \<^verbatim>\<open>JSON.stringify\<close> and
  \<^verbatim>\<open>JSON.parse\<close> that agree on this record, and a storage that accepts every write.
\<close>

definition demo_entries :: "(js_string \<times> SteamApiResponse) list" where
  "demo_entries =
     [(str ''440'', \<lparr>success = True,
                 data = Some (no_data\<lparr>data_name := Some (str ''Team Fortress 2''),
                                      data_dlc := Some [629330]\<rparr>)\<rparr>)]"

definition demo_record :: AppPayload where
  "demo_record = normalize (str ''2024-10-31T12:00:00.000Z'') (str ''440'')
     (Some (no_data\<lparr>data_name := Some (str ''Team Fortress 2''), data_dlc := Some [629330]\<rparr>))"

definition demo_codec :: codec where
  "demo_codec =
     \<lparr>JSON_parse = (\<lambda>raw. if raw = str ''{440}'' then Inr (Some demo_record) else Inl SyntaxError),
      JSON_stringify = (\<lambda>p. str ''{'' @ appId p @ str ''}'')\<rparr>"

text \<open>
  A second response for the same app, with another name, the record it normalizes to a
  second later, and a stand-in for \<^verbatim>\<open>JSON.stringify\<close> whose text shows the name of the
  record.
\<close>

definition stale_entries :: "(js_string \<times> SteamApiResponse) list" where
  "stale_entries =
     [(str ''440'', \<lparr>success = True,
                     data = Some (no_data\<lparr>data_name := Some (str ''Team Fortress'')\<rparr>)\<rparr>)]"

definition stale_record :: AppPayload where
  "stale_record = normalize (str ''2024-10-31T12:00:01.000Z'') (str ''440'')
     (Some (no_data\<lparr>data_name := Some (str ''Team Fortress'')\<rparr>))"

definition naming_codec :: codec where
  "naming_codec =
     \<lparr>JSON_parse = (\<lambda>raw. Inl SyntaxError),
      JSON_stringify = (\<lambda>p. appId p @ str '':'' @ default_to [] (name p))\<rparr>"

definition demo_storage :: storage where
  "demo_storage = \<lparr>items = Map.empty, disabled = False, rejects = (\<lambda>k v. False)\<rparr>"

definition demo_world :: "(js_string \<rightharpoonup> js_string) \<Rightarrow> world" where
  "demo_world m =
     \<lparr>controller = None, aborted = {}, allocated = 0,
      session = \<lparr>items = m, disabled = False, rejects = (\<lambda>k v. False)\<rparr>, trace = []\<rparr>"

chapter \<open>Properties\<close>

section \<open>Literals\<close>

lemma str_Nil [simp]: "str [] = []"
  by (simp add: str_def)

lemma str_Cons [simp]: "str (c # s) = of_char c # str s"
  by (simp add: str_def)

section \<open>Deduplication\<close>

lemma foldl_dedup_step:
  "snd (foldl (dedup_step f) (S, acc) xs) = acc @ kept_after f S xs"
  by (induction xs arbitrary: S acc) (simp_all add: dedup_step_def)

lemma deduplicate_kept_after: "deduplicate xs f = kept_after f {} xs"
  by (simp add: deduplicate_def foldl_dedup_step)

lemma kept_after_keys:
  "e \<in> set (kept_after f S xs) \<Longrightarrow> f e \<noteq> [] \<and> f e \<notin> S \<and> e \<in> set xs"
  by (induction xs arbitrary: S) (auto split: if_splits)

lemma kept_after_distinct: "distinct (map f (kept_after f S xs))"
proof (induction xs arbitrary: S)
  case Nil
  show ?case by simp
next
  case (Cons x xs)
  have "f x \<notin> f ` set (kept_after f (insert (f x) S) xs)"
  proof
    assume "f x \<in> f ` set (kept_after f (insert (f x) S) xs)"
    then obtain e where "e \<in> set (kept_after f (insert (f x) S) xs)" and "f e = f x"
      by auto
    with kept_after_keys [of e f "insert (f x) S" xs] show False by simp
  qed
  with Cons show ?case by simp
qed

lemma kept_after_subseq: "subseq (kept_after f S xs) xs"
  by (induction xs arbitrary: S) (simp_all add: subseq_Cons2 list_emb_Cons)

lemma kept_after_filter_seen:
  "k \<in> S \<Longrightarrow> filter (\<lambda>e. f e = k) (kept_after f S xs) = []"
  using kept_after_keys [of _ f S xs] by (auto simp: filter_empty_conv)

lemma kept_after_filter_empty_key:
  "filter (\<lambda>e. f e = []) (kept_after f S xs) = []"
  using kept_after_keys [of _ f S xs] by (auto simp: filter_empty_conv)

lemma kept_after_filter_key:
  "k \<noteq> [] \<Longrightarrow> k \<notin> S \<Longrightarrow>
   filter (\<lambda>e. f e = k) (kept_after f S xs) =
     (case find (\<lambda>e. f e = k) xs of None \<Rightarrow> [] | Some e \<Rightarrow> [e])"
proof (induction xs arbitrary: S)
  case Nil
  show ?case by simp
next
  case (Cons x xs)
  show ?case
  proof (cases "f x = k")
    case True
    with Cons.prems show ?thesis
      by (simp add: kept_after_filter_seen)
  next
    case False
    with Cons show ?thesis by simp
  qed
qed

text \<open>
  C2, as the code has it.  The output of \<open>deduplicate\<close> has pairwise different keys, is
  a subsequence of the input (so the kept entries stand in their input order) and is
  no longer than the input.  For every key other than the empty string, the entries of
  the output with that key are exactly the first entry of the input with that key (none
  when the input has none).  Entries whose key is the empty string are not kept at all.
\<close>

theorem deduplicate_first_occurrence:
  "distinct (map resolver (deduplicate list resolver)) \<and>
   subseq (deduplicate list resolver) list \<and>
   length (deduplicate list resolver) \<le> length list \<and>
   (\<forall>k. k \<noteq> [] \<longrightarrow>
      filter (\<lambda>e. resolver e = k) (deduplicate list resolver) =
        (case find (\<lambda>e. resolver e = k) list of None \<Rightarrow> [] | Some e \<Rightarrow> [e])) \<and>
   filter (\<lambda>e. resolver e = []) (deduplicate list resolver) = []"
  unfolding deduplicate_kept_after
  using kept_after_distinct [of resolver "{}" list]
        kept_after_subseq [of resolver "{}" list]
        list_emb_length [OF kept_after_subseq [of resolver "{}" list]]
        kept_after_filter_empty_key [of resolver "{}" list]
  by (simp add: kept_after_filter_key)

theorem deduplicate_first_occurrence_witness:
  "str ''10'' \<noteq> [] \<and>
   filter (\<lambda>e. fst e = str ''10'')
     (deduplicate [(str ''10'', str ''Alpha''), (str ''20'', str ''Beta''), (str ''10'', str ''Gamma'')] fst) =
     [(str ''10'', str ''Alpha'')]"
  using deduplicate_first_occurrence
    [of fst "[(str ''10'', str ''Alpha''), (str ''20'', str ''Beta''), (str ''10'', str ''Gamma'')]"]
  by simp

text \<open>
  C2, as stated, fails: the only entry of this list is the first occurrence of its key,
  the empty string, and it is not kept.
\<close>

theorem deduplicate_sole_empty_key_dropped:
  "fst ([], str ''Untitled'') = [] \<and>
   ([], str ''Untitled'') \<in> set [([], str ''Untitled'')] \<and>
   ([], str ''Untitled'') \<notin> set (deduplicate [([], str ''Untitled'')] fst)"
  by (simp add: deduplicate_def dedup_step_def)

section \<open>The CreamAPI exporter\<close>

text \<open>
  C7.  The document \<open>creamApi\<close> returns is the lines of the header (the comment naming
  the tool, \<^verbatim>\<open>[steam]\<close>, \<^verbatim>\<open>appid = <id>\<close>, an empty line, \<^verbatim>\<open>[dlc]\<close>) followed by
  one line \<^verbatim>\<open>dlc<index + 1> = <id> ; <name>\<close> per entry, in the order of the entries,
  joined by line feeds; with no entry the text ends with the line feed after
  \<^verbatim>\<open>[dlc]\<close>.  For the records (10, Alpha), (20, Beta) and the id 500 it is the text
  given.
\<close>

theorem creamApi_layout:
  "creamApi app entries =
     join (str ''\<newline>'')
       ([str ''; cream_api autogenerated by Get Data from Steam / SteamDB'',
         str ''[steam]'', str ''appid = '' @ app, [], str ''[dlc]'']
        @ (if entries = [] then [[]]
           else map (\<lambda>(i, item). str ''dlc'' @ decimal (i + 1) @ str '' = '' @ item_id item @ str '' ; '' @ item_name item)
                  (enumerate 0 entries))) \<and>
   creamApi (str ''500'')
     [Rich \<lparr>dlc_id = str ''10'', dlc_name = str ''Alpha''\<rparr>, Rich \<lparr>dlc_id = str ''20'', dlc_name = str ''Beta''\<rparr>] =
     str ''; cream_api autogenerated by Get Data from Steam / SteamDB\<newline>[steam]\<newline>appid = 500\<newline>\<newline>[dlc]\<newline>dlc1 = 10 ; Alpha\<newline>dlc2 = 20 ; Beta''"
proof
  have lines: "map cream_line (enumerate 0 entries) =
      map (\<lambda>(i, item). str ''dlc'' @ decimal (i + 1) @ str '' = '' @ item_id item @ str '' ; '' @ item_name item)
        (enumerate 0 entries)"
    by (simp add: cream_line_def)
  show "creamApi app entries =
     join (str ''\<newline>'')
       ([str ''; cream_api autogenerated by Get Data from Steam / SteamDB'',
         str ''[steam]'', str ''appid = '' @ app, [], str ''[dlc]'']
        @ (if entries = [] then [[]]
           else map (\<lambda>(i, item). str ''dlc'' @ decimal (i + 1) @ str '' = '' @ item_id item @ str '' ; '' @ item_name item)
                  (enumerate 0 entries)))"
  proof (cases entries)
    case Nil
    then show ?thesis by (simp add: creamApi_def)
  next
    case (Cons e es)
    then show ?thesis
      unfolding creamApi_def Let_def lines by simp
  qed
  show "creamApi (str ''500'')
     [Rich \<lparr>dlc_id = str ''10'', dlc_name = str ''Alpha''\<rparr>, Rich \<lparr>dlc_id = str ''20'', dlc_name = str ''Beta''\<rparr>] =
     str ''; cream_api autogenerated by Get Data from Steam / SteamDB\<newline>[steam]\<newline>appid = 500\<newline>\<newline>[dlc]\<newline>dlc1 = 10 ; Alpha\<newline>dlc2 = 20 ; Beta''"
    by (simp add: creamApi_def cream_line_def item_id_def item_name_def decimal.simps)
qed

section \<open>The achievement and depot exporters\<close>

text \<open>
  The depot exporter quotes every field and doubles the double quotes inside it: the
  name \<^verbatim>\<open>He said "hi"\<close> is rendered as \<^verbatim>\<open>"He said ""hi"""\<close>.  A quoted field has an even
  number of double quotes, whatever the value.  With no depot the document is the header
  row alone.
\<close>

lemma count_quotes_doubled:
  "even (length (filter (\<lambda>c. c = 0x22)
     (concat (map (\<lambda>c. if c = 0x22 then [0x22, 0x22] else [c]) v))))"
  by (induction v) simp_all

theorem csv_field_quoting:
  "csv_field (str ''He said '' @ [0x22] @ str ''hi'' @ [0x22]) =
     [0x22] @ str ''He said '' @ [0x22, 0x22] @ str ''hi'' @ [0x22, 0x22, 0x22] \<and>
   even (length (filter (\<lambda>c. c = 0x22) (csv_field v))) \<and>
   hd (csv_field v) = 0x22 \<and> last (csv_field v) = 0x22 \<and>
   depotsCsv [] = str ''depot_id,name,manifests,os_list'' \<and>
   depotsCsv [\<lparr>depot_id = str ''731'', depot_name = str ''Base'', manifests = str ''3'', osList = str ''windows''\<rparr>] =
     str ''depot_id,name,manifests,os_list\<newline>'' @ csv_field (str ''731'') @ str '','' @ csv_field (str ''Base'')
       @ str '','' @ csv_field (str ''3'') @ str '','' @ csv_field (str ''windows'')"
  using count_quotes_doubled [of v]
  by (simp add: csv_field_def depotsCsv_def)

text \<open>
  The achievement list is the line \<^verbatim>\<open>[Achievements]\<close>, a line feed, and the lines
  \<^verbatim>\<open><name>=1\<close> of the records in their order, joined by line feeds.
\<close>

theorem achievementsIni_layout:
  "achievementsIni achs =
     str ''[Achievements]\<newline>'' @ join (str ''\<newline>'') (map (\<lambda>a. ach_name a @ str ''=1'') achs) \<and>
   achievementsIni [] = str ''[Achievements]\<newline>'' \<and>
   achievementsIni
     [\<lparr>ach_name = str ''ACH_WIN'', displayName = str ''Winner'', description = [], icon = [],
       iconGray = []\<rparr>,
      \<lparr>ach_name = str ''ACH_LOSE'', displayName = str ''Loser'', description = [], icon = [],
       iconGray = []\<rparr>] = str ''[Achievements]\<newline>ACH_WIN=1\<newline>ACH_LOSE=1''"
  by (simp add: achievementsIni_def)

section \<open>Reconciliation of the scraped and the API-derived DLC lists\<close>

lemma as_record_Rich: "as_record (Rich e) = e"
  by (cases e) (simp add: as_record_def item_id_def item_name_def)

lemma as_record_Bare: "as_record (Bare i) = \<lparr>dlc_id = i, dlc_name = str ''DLC '' @ i\<rparr>"
  by (simp add: as_record_def item_id_def item_name_def)

lemma cream_line_as_record: "cream_line (i, Rich (as_record item)) = cream_line (i, item)"
  by (simp add: cream_line_def as_record_def item_id_def item_name_def)

lemma creamApi_as_record:
  "creamApi app (map (\<lambda>item. Rich (as_record item)) xs) = creamApi app xs"
proof -
  have "map cream_line (enumerate n (map (\<lambda>item. Rich (as_record item)) xs)) =
        map cream_line (enumerate n xs)" for n
    by (induction xs arbitrary: n) (simp_all add: cream_line_as_record)
  then show ?thesis by (simp add: creamApi_def)
qed

text \<open>
  C6.  After \<open>updateFromSteamDb\<close> the panel's DLC list is the scraped list, unchanged,
  when the scraper found at least one record; otherwise it is the id list of the stored
  record (empty when there is none), and each bare id is read, by the exporter as by
  the panel, as the record with that id and the name \<^verbatim>\<open>DLC <id>\<close>.  The list comes
  from one of the two sources as a whole.
\<close>

theorem updateFromSteamDb_one_source:
  "state_dlc (updateFromSteamDb doc state) =
     (if collectDlc doc \<noteq> [] then map Rich (collectDlc doc)
      else map Bare (case store state of None \<Rightarrow> [] | Some p \<Rightarrow> dlc p)) \<and>
   map as_record (state_dlc (updateFromSteamDb doc state)) =
     (if collectDlc doc \<noteq> [] then collectDlc doc
      else map (\<lambda>i. \<lparr>dlc_id = i, dlc_name = str ''DLC '' @ i\<rparr>)
             (case store state of None \<Rightarrow> [] | Some p \<Rightarrow> dlc p)) \<and>
   creamApi app (state_dlc (updateFromSteamDb doc state)) =
     creamApi app (map Rich (map as_record (state_dlc (updateFromSteamDb doc state))))"
  using creamApi_as_record [of app "state_dlc (updateFromSteamDb doc state)"]
  by (simp add: updateFromSteamDb_def Let_def as_record_Rich as_record_Bare comp_def
           split: option.splits)

section \<open>Normalization\<close>

text \<open>
  C1.  For every response data object (or none), the \<open>dlc\<close> field of the normalized
  record is the list of the strings of the numbers in the response's \<open>dlc\<close> array, and
  the empty list when the field is absent; \<open>isReleased\<close> is true exactly when there is a
  \<open>release_date\<close> whose \<open>coming_soon\<close> is the JSON value \<^verbatim>\<open>false\<close>; \<open>releaseDate\<close> is the
  \<open>date\<close> of the \<open>release_date\<close>, as it is.
\<close>

theorem normalize_dlc_and_release:
  "dlc (normalize now app input) =
     (case input of None \<Rightarrow> []
      | Some d \<Rightarrow> (case data_dlc d of None \<Rightarrow> [] | Some ids \<Rightarrow> map String_of_int ids)) \<and>
   isReleased (normalize now app input) =
     (\<exists>d r. input = Some d \<and> release_date d = Some r \<and> coming_soon r = Some (JBool False)) \<and>
   releaseDate (normalize now app input) =
     (case input of None \<Rightarrow> None
      | Some d \<Rightarrow> (case release_date d of None \<Rightarrow> None | Some r \<Rightarrow> date r))"
  by (auto simp: normalize_def Let_def default_to_def no_data_def split: option.splits)

lemma normalize_example:
  "dlc (normalize (str ''2024-10-31T12:00:00.000Z'') (str ''440'')
      (Some (no_data\<lparr>data_dlc := Some [629330, 15]\<rparr>))) = [str ''629330'', str ''15''] \<and>
   isReleased (normalize (str ''2024-10-31T12:00:00.000Z'') (str ''440'')
      (Some (no_data\<lparr>release_date := Some \<lparr>date = Some (str ''Oct 10, 2007''),
                                             coming_soon = Some (JBool False)\<rparr>\<rparr>))) \<and>
   \<not> isReleased (normalize (str ''2024-10-31T12:00:00.000Z'') (str ''440'')
      (Some (no_data\<lparr>release_date := Some \<lparr>date = Some (str ''Coming soon''),
                                             coming_soon = Some (JNum 0)\<rparr>\<rparr>)))"
  by (simp add: normalize_def Let_def default_to_def no_data_def String_of_int_def decimal.simps)

section \<open>The page scraper\<close>

lemma dropWhile_all: "(\<forall>c\<in>set (dropWhile P s). P c) \<longleftrightarrow> dropWhile P s = []"
proof
  assume all: "\<forall>c\<in>set (dropWhile P s). P c"
  show "dropWhile P s = []"
  proof (rule ccontr)
    assume ne: "dropWhile P s \<noteq> []"
    then have "\<not> P (hd (dropWhile P s))" by (rule hd_dropWhile)
    moreover from ne have "hd (dropWhile P s) \<in> set (dropWhile P s)" by (rule hd_in_set)
    ultimately show False using all by blast
  qed
next
  assume "dropWhile P s = []"
  then show "\<forall>c\<in>set (dropWhile P s). P c" by (simp only: list.set ball_empty)
qed

lemma trim_empty_iff: "trim s = [] \<longleftrightarrow> (\<forall>c\<in>set s. is_white_space c)"
proof -
  have "trim s = [] \<longleftrightarrow> (\<forall>c\<in>set (dropWhile is_white_space s). is_white_space c)"
    by (simp add: trim_def)
  also have "\<dots> \<longleftrightarrow> dropWhile is_white_space s = []"
    by (rule dropWhile_all)
  also have "\<dots> \<longleftrightarrow> (\<forall>c\<in>set s. is_white_space c)"
    by simp
  finally show ?thesis .
qed

lemma textContent_elements:
  "l \<in> set (elements_under up i n) \<Longrightarrow> set (textContent (snd (snd l))) \<subseteq> set (textContent n)"
  "l \<in> set (elements_among up i ns) \<Longrightarrow>
     set (textContent (snd (snd l))) \<subseteq> (\<Union>n\<in>set ns. set (textContent n))"
proof (induction up i n and up i ns arbitrary: l and l rule: elements_under_elements_among.induct)
  case (1 up i s)
  then show ?case by simp
next
  case (2 up i t as cs)
  from "2.prems" have "l \<in> set (elements_among ((i, t, as) # up) 1 cs)" by simp
  from "2.IH" [OF this] show ?case by simp
next
  case (3 up i)
  then show ?case by simp
next
  case (4 up i s ns)
  from "4.prems" have "l \<in> set (elements_among up i ns)" by simp
  from "4.IH" [OF this] show ?case by auto
next
  case (5 up i t as cs ns)
  from "5.prems" consider "l = (up, (i, t, as), Element t as cs)"
    | "l \<in> set (elements_under up i (Element t as cs))"
    | "l \<in> set (elements_among up (Suc i) ns)"
    by auto
  then show ?case
  proof cases
    case 1
    then show ?thesis by auto
  next
    case 2
    from "5.IH"(1) [OF this] show ?thesis by auto
  next
    case 3
    from "5.IH"(2) [OF this] show ?thesis by auto
  qed
qed

lemma textContent_querySelector:
  "querySelector sels c = Some e \<Longrightarrow> set (textContent e) \<subseteq> set (textContent c)"
proof -
  assume "querySelector sels c = Some e"
  then have "e \<in> set (querySelectorAll sels c)"
    by (auto simp: querySelector_def split: list.splits)
  then show ?thesis
    using textContent_elements(1) by (fastforce simp: querySelectorAll_def)
qed

lemma name_of_empty_cell:
  assumes "trim (textContent c) = []"
  shows "text_of (or_else (map_option textContent (querySelector sels c)) (Some (textContent c))) = []"
proof (cases "querySelector sels c")
  case None
  with assms show ?thesis by (simp add: or_else_def text_of_def)
next
  case (Some e)
  with assms textContent_querySelector [OF Some] have "trim (textContent e) = []"
    by (auto simp: trim_empty_iff)
  with assms Some show ?thesis by (simp add: or_else_def text_of_def)
qed

lemma dlc_row_append: "dlc_row acc row = acc @ dlc_row [] row"
  by (simp add: dlc_row_def Let_def)

lemma achievement_row_append: "achievement_row acc row = acc @ achievement_row [] row"
  by (simp add: achievement_row_def Let_def)

lemma depot_row_append: "depot_row acc row = acc @ depot_row [] row"
  by (simp add: depot_row_def Let_def)

lemma foldl_rows:
  assumes "\<And>acc row. f acc row = acc @ f [] row"
  shows "foldl f acc rows = acc @ concat (map (f []) rows)"
proof (induction rows arbitrary: acc)
  case Nil
  show ?case by simp
next
  case (Cons r rows)
  show ?case using assms [of acc r] by (simp add: Cons)
qed

lemma kept_after_filter: "kept_after f S xs = kept_after f S (filter (\<lambda>x. f x \<noteq> []) xs)"
  by (induction xs arbitrary: S) simp_all

lemma deduplicate_skip:
  assumes "\<forall>y\<in>set ys. f y = []"
  shows "deduplicate (xs @ ys @ zs) f = deduplicate (xs @ zs) f"
proof -
  from assms have "filter (\<lambda>x. f x \<noteq> []) ys = []" by (simp add: filter_empty_conv)
  then show ?thesis
    unfolding deduplicate_kept_after
    using kept_after_filter [of f "{}" "xs @ ys @ zs"] kept_after_filter [of f "{}" "xs @ zs"]
    by simp
qed

lemma dlc_row_names: "e \<in> set (dlc_row [] row) \<Longrightarrow> dlc_name e \<noteq> []"
  by (auto simp: dlc_row_def Let_def split: if_splits)

lemma depot_row_names: "e \<in> set (depot_row [] row) \<Longrightarrow> depot_name e \<noteq> []"
  by (auto simp: depot_row_def Let_def split: if_splits)

lemma achievement_row_names: "e \<in> set (achievement_row [] row) \<Longrightarrow> displayName e \<noteq> []"
  by (auto simp: achievement_row_def Let_def split: if_splits)

lemma dlc_row_no_id: "trim (row_id ''data-appid'' row) = [] \<Longrightarrow> e \<in> set (dlc_row [] row) \<Longrightarrow> dlc_id e = []"
  by (auto simp: dlc_row_def Let_def split: if_splits)

lemma depot_row_no_id: "trim (row_id ''data-depotid'' row) = [] \<Longrightarrow> e \<in> set (depot_row [] row) \<Longrightarrow> depot_id e = []"
  by (auto simp: depot_row_def Let_def split: if_splits)

lemma achievement_row_no_id: "api_name row = [] \<Longrightarrow> achievement_row [] row = []"
  by (simp add: achievement_row_def)

lemma collected_from_rows:
  assumes app: "\<And>acc row. f acc row = acc @ f [] row"
    and e: "e \<in> set (deduplicate (foldl f [] rows) k)"
  shows "k e \<noteq> [] \<and> (\<exists>row\<in>set rows. e \<in> set (f [] row))"
proof -
  from e have "k e \<noteq> [] \<and> e \<in> set (foldl f [] rows)"
    using kept_after_keys [of e k "{}" "foldl f [] rows"] by (simp add: deduplicate_kept_after)
  moreover have "foldl f [] rows = concat (map (f []) rows)"
    using foldl_rows [of f "[]" rows, OF app] by simp
  ultimately show ?thesis by auto
qed

lemma collectDlc_out:
  "r \<in> set (collectDlc doc) \<Longrightarrow> dlc_id r \<noteq> [] \<and> (\<exists>row. r \<in> set (dlc_row [] row))"
  using collected_from_rows [of dlc_row r _ dlc_id, OF dlc_row_append]
  by (auto simp: collectDlc_def dlc_of_rows_def)

lemma collectAchievements_out:
  "r \<in> set (collectAchievements doc) \<Longrightarrow>
     ach_name r \<noteq> [] \<and> (\<exists>row. r \<in> set (achievement_row [] row))"
  using collected_from_rows [of achievement_row r _ ach_name, OF achievement_row_append]
  by (auto simp: collectAchievements_def achievements_of_rows_def)

lemma collectDepots_out:
  "r \<in> set (collectDepots doc) \<Longrightarrow> depot_id r \<noteq> [] \<and> (\<exists>row. r \<in> set (depot_row [] row))"
  using collected_from_rows [of depot_row r _ depot_id, OF depot_row_append]
  by (auto simp: collectDepots_def depots_of_rows_def)

lemma deduplicate_keys: "e \<in> set (deduplicate xs f) \<Longrightarrow> f e \<noteq> []"
  using kept_after_keys [of e f "{}" xs] by (simp add: deduplicate_kept_after)

text \<open>
  C8, as the code has it.  A cell is empty for the scraper when \<^verbatim>\<open>utils.text\<close> of its
  text is the empty string, that is, when the cell is missing or its text consists of
  white space and line terminators only (a no-break space among them).  When a DLC row
  or a depot row has cells and an id and its name cell is empty, the callback appends
  the record with the trimmed id and the name \<^verbatim>\<open>DLC <id>\<close>, respectively
  \<^verbatim>\<open>Depot <id>\<close>.  When an achievement row has an API name and its display-name cell is
  empty, the callback appends a record whose display name is the API name itself.
  Every record that \<open>collectDlc\<close>, \<open>collectAchievements\<close> or \<open>collectDepots\<close> returns has a
  non-empty display name.
\<close>

theorem fallback_names:
  "(text_of cell = [] \<longleftrightarrow>
      (case cell of None \<Rightarrow> True | Some s \<Rightarrow> \<forall>c\<in>set s. is_white_space c)) \<and>
   (querySelectorAll [Tag ''td''] row \<noteq> [] \<and> row_id ''data-appid'' row \<noteq> [] \<and>
    text_of (map_option textContent (name_cell row)) = [] \<longrightarrow>
      dlc_row acc row =
        acc @ [\<lparr>dlc_id = trim (row_id ''data-appid'' row),
                dlc_name = str ''DLC '' @ trim (row_id ''data-appid'' row)\<rparr>]) \<and>
   (querySelectorAll [Tag ''td''] drow \<noteq> [] \<and> row_id ''data-depotid'' drow \<noteq> [] \<and>
    text_of (map_option textContent (name_cell drow)) = [] \<longrightarrow>
      (\<exists>m os. depot_row dacc drow =
        dacc @ [\<lparr>depot_id = trim (row_id ''data-depotid'' drow),
                 depot_name = str ''Depot '' @ trim (row_id ''data-depotid'' drow),
                 manifests = m, osList = os\<rparr>])) \<and>
   (api_name arow \<noteq> [] \<and>
    text_of (map_option textContent (querySelector [TagNthChild ''td'' 3] arow)) = [] \<longrightarrow>
      (\<exists>d i g. achievement_row aacc arow =
        aacc @ [\<lparr>ach_name = api_name arow, displayName = api_name arow,
                 description = d, icon = i, iconGray = g\<rparr>])) \<and>
   (\<forall>r\<in>set (collectDlc doc). dlc_name r \<noteq> []) \<and>
   (\<forall>r\<in>set (collectAchievements doc). displayName r \<noteq> []) \<and>
   (\<forall>r\<in>set (collectDepots doc). depot_name r \<noteq> [])"
proof (intro conjI impI ballI)
  show "text_of cell = [] \<longleftrightarrow>
      (case cell of None \<Rightarrow> True | Some s \<Rightarrow> \<forall>c\<in>set s. is_white_space c)"
    by (simp add: text_of_def trim_empty_iff split: option.splits)
next
  assume h: "querySelectorAll [Tag ''td''] row \<noteq> [] \<and> row_id ''data-appid'' row \<noteq> [] \<and>
    text_of (map_option textContent (name_cell row)) = []"
  have "text_of (or_else (map_option textContent
           (case name_cell row of None \<Rightarrow> None | Some c \<Rightarrow> querySelector [Tag ''a''] c))
         (map_option textContent (name_cell row))) = []"
  proof (cases "name_cell row")
    case None
    then show ?thesis by (simp add: or_else_def text_of_def)
  next
    case (Some c)
    with h have "trim (textContent c) = []" by (simp add: text_of_def)
    from name_of_empty_cell [OF this] Some show ?thesis by simp
  qed
  with h show "dlc_row acc row =
        acc @ [\<lparr>dlc_id = trim (row_id ''data-appid'' row),
                dlc_name = str ''DLC '' @ trim (row_id ''data-appid'' row)\<rparr>]"
    by (simp add: dlc_row_def Let_def)
next
  assume "querySelectorAll [Tag ''td''] drow \<noteq> [] \<and> row_id ''data-depotid'' drow \<noteq> [] \<and>
    text_of (map_option textContent (name_cell drow)) = []"
  then show "\<exists>m os. depot_row dacc drow =
        dacc @ [\<lparr>depot_id = trim (row_id ''data-depotid'' drow),
                 depot_name = str ''Depot '' @ trim (row_id ''data-depotid'' drow),
                 manifests = m, osList = os\<rparr>]"
    by (simp add: depot_row_def Let_def)
next
  assume "api_name arow \<noteq> [] \<and>
    text_of (map_option textContent (querySelector [TagNthChild ''td'' 3] arow)) = []"
  then show "\<exists>d i g. achievement_row aacc arow =
        aacc @ [\<lparr>ach_name = api_name arow, displayName = api_name arow,
                 description = d, icon = i, iconGray = g\<rparr>]"
    by (simp add: achievement_row_def Let_def)
next
  fix r assume "r \<in> set (collectDlc doc)"
  from collectDlc_out [OF this] show "dlc_name r \<noteq> []" by (auto dest: dlc_row_names)
next
  fix r assume "r \<in> set (collectAchievements doc)"
  from collectAchievements_out [OF this] show "displayName r \<noteq> []"
    by (auto dest: achievement_row_names)
next
  fix r assume "r \<in> set (collectDepots doc)"
  from collectDepots_out [OF this] show "depot_name r \<noteq> []" by (auto dest: depot_row_names)
qed

theorem fallback_names_witness:
  "text_of (Some [0x00A0, 0x0020]) = [] \<and>
   dlc_row [] dlc_row_999 = [\<lparr>dlc_id = str ''999'', dlc_name = str ''DLC 999''\<rparr>] \<and>
   (\<exists>m os. depot_row [] depot_row_731 =
      [\<lparr>depot_id = str ''731'', depot_name = str ''Depot 731'', manifests = m, osList = os\<rparr>]) \<and>
   (\<exists>d i g. achievement_row [] achievement_row_win =
      [\<lparr>ach_name = str ''ACH_WIN'', displayName = str ''ACH_WIN'', description = d, icon = i,
        iconGray = g\<rparr>]) \<and>
   \<lparr>dlc_id = str ''999'', dlc_name = str ''DLC 999''\<rparr> \<in> set (collectDlc example_page) \<and>
   dlc_name \<lparr>dlc_id = str ''999'', dlc_name = str ''DLC 999''\<rparr> \<noteq> [] \<and>
   displayName (hd (collectAchievements example_page)) \<noteq> [] \<and>
   depot_name (hd (collectDepots example_page)) \<noteq> []"
proof -
  note t = fallback_names [where cell = "Some [0x00A0, 0x0020]" and row = dlc_row_999
      and acc = "[]" and drow = depot_row_731 and dacc = "[]" and arow = achievement_row_win
      and aacc = "[]" and doc = example_page]
  have h0: "case Some [0x00A0, 0x0020 :: code_unit] of None \<Rightarrow> True
      | Some s \<Rightarrow> \<forall>c\<in>set s. is_white_space c"
    by (simp add: is_white_space_def)
  from t [THEN conjunct1] h0 have c0: "text_of (Some [0x00A0, 0x0020]) = []"
    by (rule iffD2)
  have h1: "querySelectorAll [Tag ''td''] dlc_row_999 \<noteq> [] \<and>
      row_id ''data-appid'' dlc_row_999 \<noteq> [] \<and>
      text_of (map_option textContent (name_cell dlc_row_999)) = []"
    by code_simp
  have v1: "trim (row_id ''data-appid'' dlc_row_999) = str ''999''"
    by code_simp
  have h2: "querySelectorAll [Tag ''td''] depot_row_731 \<noteq> [] \<and>
      row_id ''data-depotid'' depot_row_731 \<noteq> [] \<and>
      text_of (map_option textContent (name_cell depot_row_731)) = []"
    by code_simp
  have v2: "trim (row_id ''data-depotid'' depot_row_731) = str ''731''"
    by code_simp
  have h3: "api_name achievement_row_win \<noteq> [] \<and>
      text_of (map_option textContent (querySelector [TagNthChild ''td'' 3] achievement_row_win)) = []"
    by code_simp
  have v3: "api_name achievement_row_win = str ''ACH_WIN''"
    by code_simp
  have m1: "\<lparr>dlc_id = str ''999'', dlc_name = str ''DLC 999''\<rparr> \<in> set (collectDlc example_page)"
    by code_simp
  have m2: "hd (collectAchievements example_page) \<in> set (collectAchievements example_page)"
    by code_simp
  have m3: "hd (collectDepots example_page) \<in> set (collectDepots example_page)"
    by code_simp
  from t h1 have "dlc_row [] dlc_row_999 =
      [] @ [\<lparr>dlc_id = trim (row_id ''data-appid'' dlc_row_999),
             dlc_name = str ''DLC '' @ trim (row_id ''data-appid'' dlc_row_999)\<rparr>]"
    by blast
  then have c1: "dlc_row [] dlc_row_999 = [\<lparr>dlc_id = str ''999'', dlc_name = str ''DLC 999''\<rparr>]"
    by (simp add: v1)
  from t h2 have "\<exists>m os. depot_row [] depot_row_731 =
      [] @ [\<lparr>depot_id = trim (row_id ''data-depotid'' depot_row_731),
             depot_name = str ''Depot '' @ trim (row_id ''data-depotid'' depot_row_731),
             manifests = m, osList = os\<rparr>]"
    by blast
  then have c2: "\<exists>m os. depot_row [] depot_row_731 =
      [\<lparr>depot_id = str ''731'', depot_name = str ''Depot 731'', manifests = m, osList = os\<rparr>]"
    by (simp add: v2)
  from t h3 have "\<exists>d i g. achievement_row [] achievement_row_win =
      [] @ [\<lparr>ach_name = api_name achievement_row_win, displayName = api_name achievement_row_win,
             description = d, icon = i, iconGray = g\<rparr>]"
    by blast
  then have c3: "\<exists>d i g. achievement_row [] achievement_row_win =
      [\<lparr>ach_name = str ''ACH_WIN'', displayName = str ''ACH_WIN'', description = d, icon = i,
        iconGray = g\<rparr>]"
    by (simp add: v3)
  from t m1 have c4: "dlc_name \<lparr>dlc_id = str ''999'', dlc_name = str ''DLC 999''\<rparr> \<noteq> []" by blast
  from t m2 have c5: "displayName (hd (collectAchievements example_page)) \<noteq> []" by blast
  from t m3 have c6: "depot_name (hd (collectDepots example_page)) \<noteq> []" by blast
  from c0 c1 c2 c3 m1 c4 c5 c6 show ?thesis by blast
qed

text \<open>
  C8, as stated, fails for achievements: the row with the API name \<^verbatim>\<open>ACH_WIN\<close> and an
  empty display-name cell yields the display name \<^verbatim>\<open>ACH_WIN\<close>, which is not of the form
  \<^verbatim>\<open><Kind> ACH_WIN\<close> for any kind.
\<close>

theorem achievement_fallback_is_api_name:
  "api_name achievement_row_win = str ''ACH_WIN'' \<and>
   text_of (map_option textContent (querySelector [TagNthChild ''td'' 3] achievement_row_win)) = [] \<and>
   achievements_of_rows [achievement_row_win] =
     [\<lparr>ach_name = str ''ACH_WIN'', displayName = str ''ACH_WIN'', description = str ''Win a round'',
       icon = str ''win.jpg'', iconGray = []\<rparr>] \<and>
   (\<forall>kind. str ''ACH_WIN'' \<noteq> kind @ str '' '' @ str ''ACH_WIN'')"
proof -
  have a: "api_name achievement_row_win = str ''ACH_WIN''" by code_simp
  have b: "text_of (map_option textContent
      (querySelector [TagNthChild ''td'' 3] achievement_row_win)) = []"
    by code_simp
  have c: "achievements_of_rows [achievement_row_win] =
     [\<lparr>ach_name = str ''ACH_WIN'', displayName = str ''ACH_WIN'', description = str ''Win a round'',
       icon = str ''win.jpg'', iconGray = []\<rparr>]"
    by code_simp
  have d: "str ''ACH_WIN'' \<noteq> kind @ str '' '' @ str ''ACH_WIN''" for kind :: js_string
  proof
    assume "str ''ACH_WIN'' = kind @ str '' '' @ str ''ACH_WIN''"
    then have "length (str ''ACH_WIN'') = length (kind @ str '' '' @ str ''ACH_WIN'')" by (rule arg_cong)
    then show False by simp
  qed
  from a b c d show ?thesis by blast
qed

text \<open>
  C9.  The three operations are total functions of the page: no step of them can
  throw.  When the query for the rows of a section finds none, the operation returns the
  empty list.  A row without a usable id (for DLC and depots: the id attribute or, in
  its absence, the trimmed text of the first cell is empty after \<^verbatim>\<open>trim\<close>, so it
  consists of white space and line terminators only, a no-break space among them; for
  achievements: the API name is empty) contributes nothing, and the rows before and
  after it are processed as if it were not there.
\<close>

theorem scraper_absorbs_gaps:
  "(document_querySelectorAll [Id ''dlc'', Tag ''table'', Tag ''tbody'', Tag ''tr''] doc = []
      \<longrightarrow> collectDlc doc = []) \<and>
   (document_querySelectorAll [Id ''achievements'', Tag ''table'', Tag ''tbody'', Tag ''tr''] doc = []
      \<longrightarrow> collectAchievements doc = []) \<and>
   (document_querySelectorAll [Id ''depots'', Tag ''table'', Tag ''tbody'', Tag ''tr''] doc = []
      \<longrightarrow> collectDepots doc = []) \<and>
   (trim (row_id ''data-appid'' row) = [] \<longrightarrow>
      dlc_of_rows (before @ row # after) = dlc_of_rows (before @ after)) \<and>
   (api_name arow = [] \<longrightarrow>
      achievements_of_rows (abefore @ arow # aafter) = achievements_of_rows (abefore @ aafter)) \<and>
   (trim (row_id ''data-depotid'' drow) = [] \<longrightarrow>
      depots_of_rows (dbefore @ drow # dafter) = depots_of_rows (dbefore @ dafter))"
proof (intro conjI impI)
  assume "document_querySelectorAll [Id ''dlc'', Tag ''table'', Tag ''tbody'', Tag ''tr''] doc = []"
  then show "collectDlc doc = []"
    by (simp add: collectDlc_def dlc_of_rows_def deduplicate_def)
next
  assume "document_querySelectorAll
      [Id ''achievements'', Tag ''table'', Tag ''tbody'', Tag ''tr''] doc = []"
  then show "collectAchievements doc = []"
    by (simp add: collectAchievements_def achievements_of_rows_def deduplicate_def)
next
  assume "document_querySelectorAll [Id ''depots'', Tag ''table'', Tag ''tbody'', Tag ''tr''] doc = []"
  then show "collectDepots doc = []"
    by (simp add: collectDepots_def depots_of_rows_def deduplicate_def)
next
  assume "trim (row_id ''data-appid'' row) = []"
  then have "\<forall>e\<in>set (dlc_row [] row). dlc_id e = []"
    by (auto dest: dlc_row_no_id)
  from deduplicate_skip [OF this, of "concat (map (dlc_row []) before)"
      "concat (map (dlc_row []) after)"]
  show "dlc_of_rows (before @ row # after) = dlc_of_rows (before @ after)"
    unfolding dlc_of_rows_def Let_def foldl_rows [of dlc_row "[]", OF dlc_row_append]
    by simp
next
  assume "api_name arow = []"
  then have "achievement_row [] arow = []" by (rule achievement_row_no_id)
  then show "achievements_of_rows (abefore @ arow # aafter) = achievements_of_rows (abefore @ aafter)"
    unfolding achievements_of_rows_def Let_def
      foldl_rows [of achievement_row "[]", OF achievement_row_append]
    by simp
next
  assume "trim (row_id ''data-depotid'' drow) = []"
  then have "\<forall>e\<in>set (depot_row [] drow). depot_id e = []"
    by (auto dest: depot_row_no_id)
  from deduplicate_skip [OF this, of "concat (map (depot_row []) dbefore)"
      "concat (map (depot_row []) dafter)"]
  show "depots_of_rows (dbefore @ drow # dafter) = depots_of_rows (dbefore @ dafter)"
    unfolding depots_of_rows_def Let_def foldl_rows [of depot_row "[]", OF depot_row_append]
    by simp
qed

theorem scraper_absorbs_gaps_witness:
  "collectDlc empty_page = [] \<and> collectAchievements empty_page = [] \<and>
   collectDepots empty_page = [] \<and>
   dlc_of_rows [dlc_row_999, dlc_row_without_id, dlc_row_1000] =
     dlc_of_rows [dlc_row_999, dlc_row_1000] \<and>
   dlc_of_rows [dlc_row_999, dlc_row_1000] =
     [\<lparr>dlc_id = str ''999'', dlc_name = str ''DLC 999''\<rparr>, \<lparr>dlc_id = str ''1000'', dlc_name = str ''Soundtrack''\<rparr>] \<and>
   achievements_of_rows [achievement_row_win, achievement_row_without_id, achievement_row_lose] =
     achievements_of_rows [achievement_row_win, achievement_row_lose] \<and>
   depots_of_rows [depot_row_blank_id, depot_row_731] = depots_of_rows [depot_row_731]"
proof -
  note t = scraper_absorbs_gaps [where doc = empty_page
      and row = dlc_row_without_id and before = "[dlc_row_999]" and after = "[dlc_row_1000]"
      and arow = achievement_row_without_id and abefore = "[achievement_row_win]"
      and aafter = "[achievement_row_lose]"
      and drow = depot_row_blank_id and dbefore = "[]" and dafter = "[depot_row_731]"]
  have q1: "document_querySelectorAll [Id ''dlc'', Tag ''table'', Tag ''tbody'', Tag ''tr'']
      empty_page = []"
    by code_simp
  have q2: "document_querySelectorAll [Id ''achievements'', Tag ''table'', Tag ''tbody'', Tag ''tr'']
      empty_page = []"
    by code_simp
  have q3: "document_querySelectorAll [Id ''depots'', Tag ''table'', Tag ''tbody'', Tag ''tr'']
      empty_page = []"
    by code_simp
  have b1: "trim (row_id ''data-appid'' dlc_row_without_id) = []" by code_simp
  have b2: "api_name achievement_row_without_id = []" by code_simp
  have b3: "trim (row_id ''data-depotid'' depot_row_blank_id) = []" by code_simp
  have v: "dlc_of_rows [dlc_row_999, dlc_row_1000] =
     [\<lparr>dlc_id = str ''999'', dlc_name = str ''DLC 999''\<rparr>, \<lparr>dlc_id = str ''1000'', dlc_name = str ''Soundtrack''\<rparr>]"
    by code_simp
  from t q1 q2 q3 b1 b2 b3 v show ?thesis by simp
qed

text \<open>
  C10.  No entry in the output of \<open>deduplicate\<close> has the empty key: an entry whose key
  is the empty string is dropped wherever it stands, also when it is the only entry of
  the list, so the output can omit entries that duplicate nothing.  Hence every record
  returned by the three collection operations has a non-empty identifying key.
\<close>

theorem empty_keys_never_returned:
  "(\<forall>e\<in>set (deduplicate list resolver). resolver e \<noteq> []) \<and>
   (resolver x = [] \<longrightarrow> x \<notin> set (deduplicate list resolver) \<and> deduplicate [x] resolver = []) \<and>
   (\<forall>r\<in>set (collectDlc doc). dlc_id r \<noteq> []) \<and>
   (\<forall>r\<in>set (collectAchievements doc). ach_name r \<noteq> []) \<and>
   (\<forall>r\<in>set (collectDepots doc). depot_id r \<noteq> [])"
proof (intro conjI impI ballI)
  fix e assume "e \<in> set (deduplicate list resolver)"
  then show "resolver e \<noteq> []" by (rule deduplicate_keys)
next
  assume "resolver x = []"
  then show "x \<notin> set (deduplicate list resolver)" using deduplicate_keys [of x list resolver] by blast
next
  assume "resolver x = []"
  then show "deduplicate [x] resolver = []" by (simp add: deduplicate_def dedup_step_def)
next
  fix r assume "r \<in> set (collectDlc doc)"
  from collectDlc_out [OF this] show "dlc_id r \<noteq> []" by simp
next
  fix r assume "r \<in> set (collectAchievements doc)"
  from collectAchievements_out [OF this] show "ach_name r \<noteq> []" by simp
next
  fix r assume "r \<in> set (collectDepots doc)"
  from collectDepots_out [OF this] show "depot_id r \<noteq> []" by simp
qed

theorem empty_keys_never_returned_witness:
  "fst (str ''10'', str ''Alpha'') \<noteq> [] \<and>
   ([], str ''Untitled'') \<notin> set (deduplicate [(str ''10'', str ''Alpha''), ([], str ''Untitled'')] fst) \<and>
   deduplicate [([], str ''Untitled'')] fst = [] \<and>
   dlc_id (hd (collectDlc example_page)) \<noteq> [] \<and>
   ach_name (hd (collectAchievements example_page)) \<noteq> [] \<and>
   depot_id (hd (collectDepots example_page)) \<noteq> []"
proof -
  note t = empty_keys_never_returned [where list = "[(str ''10'', str ''Alpha''), ([], str ''Untitled'')]"
      and resolver = fst and x = "([], str ''Untitled'')" and doc = example_page]
  have m0: "(str ''10'', str ''Alpha'') \<in> set (deduplicate [(str ''10'', str ''Alpha''), ([], str ''Untitled'')] fst)"
    by code_simp
  have m1: "hd (collectDlc example_page) \<in> set (collectDlc example_page)" by code_simp
  have m2: "hd (collectAchievements example_page) \<in> set (collectAchievements example_page)"
    by code_simp
  have m3: "hd (collectDepots example_page) \<in> set (collectDepots example_page)" by code_simp
  have e: "fst ([], str ''Untitled'') = []" by simp
  from t [THEN conjunct1] m0 have c1: "fst (str ''10'', str ''Alpha'') \<noteq> []" by (rule bspec)
  from t [THEN conjunct2, THEN conjunct1] e
  have c2: "([], str ''Untitled'') \<notin> set (deduplicate [(str ''10'', str ''Alpha''), ([], str ''Untitled'')] fst)
      \<and> deduplicate [([], str ''Untitled'')] fst = []"
    by (rule mp)
  from t [THEN conjunct2, THEN conjunct2, THEN conjunct1] m1
  have c3: "dlc_id (hd (collectDlc example_page)) \<noteq> []" by (rule bspec)
  from t [THEN conjunct2, THEN conjunct2, THEN conjunct2, THEN conjunct1] m2
  have c4: "ach_name (hd (collectAchievements example_page)) \<noteq> []" by (rule bspec)
  from t [THEN conjunct2, THEN conjunct2, THEN conjunct2, THEN conjunct2] m3
  have c5: "depot_id (hd (collectDepots example_page)) \<noteq> []" by (rule bspec)
  from c1 c2 c3 c4 c5 show ?thesis by (intro conjI) (rule conjunct1, assumption | rule conjunct2, assumption | assumption)+
qed

section \<open>The cache-aware client: one call at a time\<close>

lemma readCache_hit:
  "\<not> disabled st \<Longrightarrow> items st key = Some raw \<Longrightarrow> raw \<noteq> [] \<Longrightarrow>
   JSON_parse js raw = Inr (Some p) \<Longrightarrow> readCache js st key = Some p"
  by (simp add: readCache_def getItem_def)

text \<open>
  C3.  When the session storage is readable and holds, under the key
  \<^verbatim>\<open>gds:store:<appId>\<close>, a non-empty text that parses to a record, \<open>fetch\<close> without
  forced refresh returns that record and leaves the world as it was: the controller, the
  storage and the trace of network calls are unchanged, so no request is issued.  A
  second such call therefore returns the same record, again without a request, whatever
  the network and the clock would have answered.
\<close>

theorem fetch_cache_hit:
  assumes "\<not> disabled (session w)"
    and "items (session w) (str ''gds:store:'' @ app) = Some raw"
    and "raw \<noteq> []"
    and "JSON_parse js raw = Inr (Some p)"
  shows "fetch js net now w app False = (w, Inr p) \<and>
         trace (fst (fetch js net now w app False)) = trace w \<and>
         fetch js net' now' (fst (fetch js net now w app False)) app False = (w, Inr p)"
proof -
  from assms have "readCache js (session w) (cacheKey app) = Some p"
    by (simp add: readCache_hit cacheKey_def)
  then have "fetch js n t w app False = (w, Inr p)" for n t
    by (simp add: fetch_def fetch_begin_def)
  then show ?thesis by simp
qed

theorem fetch_cache_hit_witness:
  "fetch demo_codec (NoReply TypeError) (str ''2024-11-01T00:00:00.000Z'')
     (demo_world [str ''gds:store:440'' \<mapsto> str ''{440}'']) (str ''440'') False =
     (demo_world [str ''gds:store:440'' \<mapsto> str ''{440}''], Inr demo_record) \<and>
   trace (fst (fetch demo_codec (NoReply TypeError) (str ''2024-11-01T00:00:00.000Z'')
     (demo_world [str ''gds:store:440'' \<mapsto> str ''{440}'']) (str ''440'') False)) = []"
proof -
  have 1: "\<not> disabled (session (demo_world [str ''gds:store:440'' \<mapsto> str ''{440}'']))"
    by (simp add: demo_world_def)
  have 2: "items (session (demo_world [str ''gds:store:440'' \<mapsto> str ''{440}''])) (str ''gds:store:'' @ str ''440'')
      = Some (str ''{440}'')"
    by (simp add: demo_world_def)
  have 3: "str ''{440}'' \<noteq> []" by simp
  have 4: "JSON_parse demo_codec (str ''{440}'') = Inr (Some demo_record)"
    by (simp add: demo_codec_def)
  have 5: "trace (demo_world [str ''gds:store:440'' \<mapsto> str ''{440}'']) = []"
    by (simp add: demo_world_def)
  from fetch_cache_hit [OF 1 2 3 4, of "NoReply TypeError" "str ''2024-11-01T00:00:00.000Z''"] 5
  show ?thesis by simp
qed

lemma fetch_begin_session: "session (fst (fetch_begin js w app force)) = session w"
  by (simp add: fetch_begin_def Let_def split: option.splits)

lemma fetch_begin_request:
  "force \<or> readCache js (session w) (cacheKey app) = None \<Longrightarrow>
   \<exists>w1 s. fetch_begin js w app force = (w1, Inr s) \<and> session w1 = session w"
  by (auto simp: fetch_begin_def Let_def split: option.splits)

lemma fetch_failure_keeps_session:
  "snd (fetch js net now w app force) = Inl e \<Longrightarrow>
   session (fst (fetch js net now w app force)) = session w"
  using fetch_begin_session [of js w app force]
  by (auto simp: fetch_def fetch_body_def Let_def
      split: prod.splits sum.splits reply.splits option.splits if_splits)

text \<open>
  C5.  A call of \<open>fetch\<close> that ends with an error leaves the session storage as it
  was.  When the request goes out (forced refresh, or nothing usable in the cache): a
  status outside 200 to 299 ends the call with the status error, and a body without a
  successful entry for the app id ends it with the empty-response error, both without a
  cache write; a successful entry makes the call return the normalized record, and the
  storage afterwards is the result of \<open>writeCache\<close> on that record.  \<open>writeCache\<close> leaves
  the storage unchanged when the storage is disabled or refuses the write, without an
  error, and stores the serialized record under the key otherwise.  In every call, the
  storage stays as it was, or the call returns a normalized record and the storage is the
  result of \<open>writeCache\<close> on that very record.
\<close>

lemma fetch_writes_normalized:
  "session (fst (fetch js net now w app force)) = session w \<or>
    (\<exists>input. snd (fetch js net now w app force) = Inr (normalize now app input) \<and>
       session (fst (fetch js net now w app force)) =
         writeCache js (session w) (cacheKey app) (normalize now app input))"
proof (cases "fetch_begin js w app force")
  case (Pair w1 r)
  with fetch_begin_session [of js w app force] have s1: "session w1 = session w" by simp
  show ?thesis
  proof (cases r)
    case (Inl cached)
    with Pair s1 show ?thesis by (simp add: fetch_def)
  next
    case (Inr signal)
    show ?thesis
    proof (cases net)
      case (NoReply e)
      with Pair Inr s1 show ?thesis by (simp add: fetch_def)
    next
      case (Reply status body)
      show ?thesis
      proof (cases "fetch_response status")
        case (Some e)
        with Pair Inr Reply s1 show ?thesis by (simp add: fetch_def)
      next
        case None
        show ?thesis
        proof (cases body)
          case (Inl e)
          with Pair Inr Reply None s1 show ?thesis by (simp add: fetch_def)
        next
          case inr: (Inr parsed)
          with Pair Inr Reply None s1 show ?thesis
            by (auto simp: fetch_def fetch_body_def Let_def)
        qed
      qed
    qed
  qed
qed

theorem fetch_cache_discipline:
  "(\<forall>e. snd (fetch js net now w app force) = Inl e \<longrightarrow>
        session (fst (fetch js net now w app force)) = session w) \<and>
   ((force \<or> readCache js (session w) (cacheKey app) = None) \<and> \<not> ok status \<longrightarrow>
      snd (fetch js (Reply status body) now w app force) =
        Inl (Error (str ''Steam Store API responded with '' @ decimal status)) \<and>
      session (fst (fetch js (Reply status body) now w app force)) = session w) \<and>
   ((force \<or> readCache js (session w) (cacheKey app) = None) \<and> ok status \<and>
    \<not> (\<exists>m e. parsed = Some m \<and> map_of m app = Some e \<and> success e) \<longrightarrow>
      snd (fetch js (Reply status (Inr parsed)) now w app force) =
        Inl (Error (str ''Steam Store API returned an empty response'')) \<and>
      session (fst (fetch js (Reply status (Inr parsed)) now w app force)) = session w) \<and>
   ((force \<or> readCache js (session w) (cacheKey app) = None) \<and> ok status \<and>
    map_of m app = Some entry \<and> success entry \<longrightarrow>
      snd (fetch js (Reply status (Inr (Some m))) now w app force) =
        Inr (normalize now app (data entry)) \<and>
      session (fst (fetch js (Reply status (Inr (Some m))) now w app force)) =
        writeCache js (session w) (cacheKey app) (normalize now app (data entry))) \<and>
   (disabled st \<or> rejects st key (JSON_stringify js v) \<longrightarrow> writeCache js st key v = st) \<and>
   (\<not> disabled st \<and> \<not> rejects st key (JSON_stringify js v) \<longrightarrow>
      writeCache js st key v = st\<lparr>items := (items st)(key \<mapsto> JSON_stringify js v)\<rparr>) \<and>
   (session (fst (fetch js net now w app force)) = session w \<or>
    (\<exists>input. snd (fetch js net now w app force) = Inr (normalize now app input) \<and>
       session (fst (fetch js net now w app force)) =
         writeCache js (session w) (cacheKey app) (normalize now app input)))"
proof (intro conjI allI impI)
  fix e assume "snd (fetch js net now w app force) = Inl e"
  then show "session (fst (fetch js net now w app force)) = session w"
    by (rule fetch_failure_keeps_session)
next
  assume h: "(force \<or> readCache js (session w) (cacheKey app) = None) \<and> \<not> ok status"
  then obtain w1 s where b: "fetch_begin js w app force = (w1, Inr s)" "session w1 = session w"
    using fetch_begin_request [of force js w app] by blast
  with h show "snd (fetch js (Reply status body) now w app force) =
        Inl (Error (str ''Steam Store API responded with '' @ decimal status))"
    by (simp add: fetch_def fetch_response_def)
  from b h show "session (fst (fetch js (Reply status body) now w app force)) = session w"
    by (simp add: fetch_def fetch_response_def)
next
  assume h: "(force \<or> readCache js (session w) (cacheKey app) = None) \<and> ok status \<and>
    \<not> (\<exists>m e. parsed = Some m \<and> map_of m app = Some e \<and> success e)"
  then obtain w1 s where b: "fetch_begin js w app force = (w1, Inr s)" "session w1 = session w"
    using fetch_begin_request [of force js w app] by blast
  from h have nomark: "\<not> (case (case parsed of None \<Rightarrow> None | Some m \<Rightarrow> map_of m app) of
      None \<Rightarrow> False | Some e \<Rightarrow> success e)"
    by (auto split: option.splits)
  with b h show "snd (fetch js (Reply status (Inr parsed)) now w app force) =
        Inl (Error (str ''Steam Store API returned an empty response''))"
    by (simp add: fetch_def fetch_response_def fetch_body_def Let_def)
  from nomark b h
  show "session (fst (fetch js (Reply status (Inr parsed)) now w app force)) = session w"
    by (simp add: fetch_def fetch_response_def fetch_body_def Let_def)
next
  assume h: "(force \<or> readCache js (session w) (cacheKey app) = None) \<and> ok status \<and>
    map_of m app = Some entry \<and> success entry"
  then obtain w1 s where b: "fetch_begin js w app force = (w1, Inr s)" "session w1 = session w"
    using fetch_begin_request [of force js w app] by blast
  with h show "snd (fetch js (Reply status (Inr (Some m))) now w app force) =
        Inr (normalize now app (data entry))"
    by (simp add: fetch_def fetch_response_def fetch_body_def Let_def)
  from b h show "session (fst (fetch js (Reply status (Inr (Some m))) now w app force)) =
        writeCache js (session w) (cacheKey app) (normalize now app (data entry))"
    by (simp add: fetch_def fetch_response_def fetch_body_def Let_def)
next
  assume "disabled st \<or> rejects st key (JSON_stringify js v)"
  then show "writeCache js st key v = st"
    by (auto simp: writeCache_def setItem_def)
next
  assume "\<not> disabled st \<and> \<not> rejects st key (JSON_stringify js v)"
  then show "writeCache js st key v = st\<lparr>items := (items st)(key \<mapsto> JSON_stringify js v)\<rparr>"
    by (simp add: writeCache_def setItem_def)
next
  show "session (fst (fetch js net now w app force)) = session w \<or>
    (\<exists>input. snd (fetch js net now w app force) = Inr (normalize now app input) \<and>
       session (fst (fetch js net now w app force)) =
         writeCache js (session w) (cacheKey app) (normalize now app input))"
    by (rule fetch_writes_normalized)
qed

theorem fetch_cache_discipline_witness:
  "session (fst (fetch demo_codec (NoReply TypeError) (str ''2024-11-01T00:00:00.000Z'')
       (demo_world [str ''gds:store:440'' \<mapsto> str ''{440}'']) (str ''440'') True)) =
     session (demo_world [str ''gds:store:440'' \<mapsto> str ''{440}'']) \<and>
   snd (fetch demo_codec (Reply 503 (Inl SyntaxError)) (str ''2024-11-01T00:00:00.000Z'')
       (demo_world [str ''gds:store:440'' \<mapsto> str ''{440}'']) (str ''440'') True) =
     Inl (Error (str ''Steam Store API responded with 503'')) \<and>
   session (fst (fetch demo_codec (Reply 503 (Inl SyntaxError)) (str ''2024-11-01T00:00:00.000Z'')
       (demo_world [str ''gds:store:440'' \<mapsto> str ''{440}'']) (str ''440'') True)) =
     session (demo_world [str ''gds:store:440'' \<mapsto> str ''{440}'']) \<and>
   snd (fetch demo_codec (Reply 200 (Inr (Some [(str ''570'', \<lparr>success = True, data = None\<rparr>)])))
       (str ''2024-11-01T00:00:00.000Z'') (demo_world [str ''gds:store:440'' \<mapsto> str ''{440}'']) (str ''440'') True) =
     Inl (Error (str ''Steam Store API returned an empty response'')) \<and>
   session (fst (fetch demo_codec
       (Reply 200 (Inr (Some [(str ''570'', \<lparr>success = True, data = None\<rparr>)])))
       (str ''2024-11-01T00:00:00.000Z'') (demo_world [str ''gds:store:440'' \<mapsto> str ''{440}'']) (str ''440'') True)) =
     session (demo_world [str ''gds:store:440'' \<mapsto> str ''{440}'']) \<and>
   snd (fetch demo_codec (Reply 200 (Inr (Some demo_entries))) (str ''2024-10-31T12:00:00.000Z'')
       (demo_world Map.empty) (str ''440'') True) = Inr demo_record \<and>
   items (session (fst (fetch demo_codec (Reply 200 (Inr (Some demo_entries)))
       (str ''2024-10-31T12:00:00.000Z'') (demo_world Map.empty) (str ''440'') True))) (str ''gds:store:440'') =
     Some (str ''{440}'') \<and>
   writeCache demo_codec (demo_storage\<lparr>disabled := True\<rparr>) (str ''gds:store:440'') demo_record =
     demo_storage\<lparr>disabled := True\<rparr>"
proof -
  let ?w = "demo_world [str ''gds:store:440'' \<mapsto> str ''{440}'']"
  let ?t = "str ''2024-11-01T00:00:00.000Z''"
  let ?none = "Some [(str ''570'', \<lparr>success = True, data = None\<rparr>)]"
  note bad = fetch_cache_discipline [where js = demo_codec and net = "NoReply TypeError"
      and now = ?t and w = ?w and app = "str ''440''" and force = True and status = 503
      and body = "Inl SyntaxError" and st = "demo_storage\<lparr>disabled := True\<rparr>"
      and key = "str ''gds:store:440''" and v = demo_record]
  note none = fetch_cache_discipline [where js = demo_codec and now = ?t and w = ?w
      and app = "str ''440''" and force = True and status = 200 and parsed = ?none]
  note good = fetch_cache_discipline [where js = demo_codec
      and now = "str ''2024-10-31T12:00:00.000Z''" and w = "demo_world Map.empty"
      and app = "str ''440''" and force = True and status = 200 and m = demo_entries
      and entry = "\<lparr>success = True,
                 data = Some (no_data\<lparr>data_name := Some (str ''Team Fortress 2''),
                                      data_dlc := Some [629330]\<rparr>)\<rparr>"
      and st = demo_storage and key = "str ''gds:store:440''" and v = demo_record]
  have f1: "snd (fetch demo_codec (NoReply TypeError) ?t ?w (str ''440'') True) = Inl TypeError"
    by (simp add: fetch_def fetch_begin_def Let_def demo_world_def)
  from bad [THEN conjunct1, rule_format, OF f1]
  have c1: "session (fst (fetch demo_codec (NoReply TypeError) ?t ?w (str ''440'') True)) = session ?w" .
  have h2: "(True \<or> readCache demo_codec (session ?w) (cacheKey (str ''440'')) = None) \<and> \<not> ok 503"
    by (simp add: ok_def)
  have d: "decimal 503 = str ''503''" by (simp add: decimal.simps)
  from bad [THEN conjunct2, THEN conjunct1, rule_format, OF h2] d
  have c2: "snd (fetch demo_codec (Reply 503 (Inl SyntaxError)) ?t ?w (str ''440'') True) =
      Inl (Error (str ''Steam Store API responded with 503''))"
    and c2': "session (fst (fetch demo_codec (Reply 503 (Inl SyntaxError)) ?t ?w (str ''440'') True)) =
      session ?w"
    by simp_all
  have h3: "(True \<or> readCache demo_codec (session ?w) (cacheKey (str ''440'')) = None) \<and> ok 200 \<and>
      \<not> (\<exists>m e. ?none = Some m \<and> map_of m (str ''440'') = Some e \<and> success e)"
    by (simp add: ok_def)
  from none [THEN conjunct2, THEN conjunct2, THEN conjunct1, rule_format, OF h3]
  have c3: "snd (fetch demo_codec (Reply 200 (Inr ?none)) ?t ?w (str ''440'') True) =
      Inl (Error (str ''Steam Store API returned an empty response''))"
    and c3': "session (fst (fetch demo_codec (Reply 200 (Inr ?none)) ?t ?w (str ''440'') True)) = session ?w"
    by simp_all
  have h4: "(True \<or> readCache demo_codec (session (demo_world Map.empty)) (cacheKey (str ''440'')) = None)
      \<and> ok 200 \<and>
      map_of demo_entries (str ''440'') =
        Some \<lparr>success = True,
              data = Some (no_data\<lparr>data_name := Some (str ''Team Fortress 2''),
                                   data_dlc := Some [629330]\<rparr>)\<rparr> \<and>
      success \<lparr>success = True,
               data = Some (no_data\<lparr>data_name := Some (str ''Team Fortress 2''),
                                    data_dlc := Some [629330]\<rparr>)\<rparr>"
    by (simp add: ok_def demo_entries_def)
  have w: "items (writeCache demo_codec (session (demo_world Map.empty)) (cacheKey (str ''440''))
      demo_record) (str ''gds:store:440'') = Some (str ''{440}'')"
    by (simp add: writeCache_def setItem_def demo_world_def cacheKey_def demo_codec_def
        demo_record_def normalize_def Let_def)
  from good [THEN conjunct2, THEN conjunct2, THEN conjunct2, THEN conjunct1, rule_format, OF h4] w
  have c4: "snd (fetch demo_codec (Reply 200 (Inr (Some demo_entries)))
      (str ''2024-10-31T12:00:00.000Z'') (demo_world Map.empty) (str ''440'') True) = Inr demo_record"
    and c4': "items (session (fst (fetch demo_codec (Reply 200 (Inr (Some demo_entries)))
       (str ''2024-10-31T12:00:00.000Z'') (demo_world Map.empty) (str ''440'') True))) (str ''gds:store:440'') =
     Some (str ''{440}'')"
    by (simp_all add: demo_record_def)
  have h5: "disabled (demo_storage\<lparr>disabled := True\<rparr>) \<or>
      rejects (demo_storage\<lparr>disabled := True\<rparr>) (str ''gds:store:440'')
        (JSON_stringify demo_codec demo_record)"
    by simp
  from bad [THEN conjunct2, THEN conjunct2, THEN conjunct2, THEN conjunct2, THEN conjunct1,
      rule_format, OF h5]
  have c5: "writeCache demo_codec (demo_storage\<lparr>disabled := True\<rparr>) (str ''gds:store:440'') demo_record =
     demo_storage\<lparr>disabled := True\<rparr>" .
  show ?thesis
    by (intro conjI c1 c2 c2' c3 c3' c4 c4' c5)
qed

section \<open>The cache-aware client: overlapping calls\<close>

lemma tokens_of_append [simp]: "tokens_of (xs @ ys) = tokens_of xs @ tokens_of ys"
  by (simp add: tokens_of_def)

lemma tokens_of_single [simp]:
  "tokens_of [k] = (case call_signal k of None \<Rightarrow> [] | Some s \<Rightarrow> [s])"
  by (simp add: tokens_of_def)

lemma tokens_of_Nil [simp]: "tokens_of [] = []"
  by (simp add: tokens_of_def)

lemma tokens_of_nth: "i < length ks \<Longrightarrow> call_signal (ks ! i) = Some s \<Longrightarrow> s \<in> set (tokens_of ks)"
  by (force simp: tokens_of_def in_set_conv_nth)

lemma map_signal_update:
  "i < length ks \<Longrightarrow> map call_signal (ks[i := (ks ! i)\<lparr>call_phase := p\<rparr>]) = map call_signal ks"
  by (simp add: map_update list_update_same_conv)

lemma tokens_of_update [simp]:
  "i < length ks \<Longrightarrow> tokens_of (ks[i := (ks ! i)\<lparr>call_phase := p\<rparr>]) = tokens_of ks"
proof -
  assume i: "i < length ks"
  have "map (\<lambda>k. case call_signal k of None \<Rightarrow> [] | Some s \<Rightarrow> [s])
        (ks[i := (ks ! i)\<lparr>call_phase := p\<rparr>]) =
      map (\<lambda>k. case call_signal k of None \<Rightarrow> [] | Some s \<Rightarrow> [s]) ks"
    using i by (simp add: list_eq_iff_nth_eq nth_list_update)
  then show ?thesis by (simp add: tokens_of_def)
qed

lemma nth_update_signal [simp]:
  "call_signal ((ks[i := (ks ! i)\<lparr>call_phase := p\<rparr>]) ! j) = call_signal (ks ! j)"
  by (cases "i < length ks"; cases "i = j") (simp_all add: list_update_beyond)

lemma nth_update_app [simp]:
  "call_app ((ks[i := (ks ! i)\<lparr>call_phase := p\<rparr>]) ! j) = call_app (ks ! j)"
  by (cases "i < length ks"; cases "i = j") (simp_all add: list_update_beyond)

lemma fetch_body_world:
  "fetch_body js now w app parsed = (w', r) \<Longrightarrow>
   controller w' = controller w \<and> aborted w' = aborted w \<and> allocated w' = allocated w \<and>
   trace w' = trace w"
  by (auto simp: fetch_body_def Let_def split: if_splits)

lemma uncancelled_snoc: "uncancelled (tr @ [e]) = track (uncancelled tr) e"
  by (simp add: uncancelled_def)

lemma card_prefixes_snoc:
  assumes "\<forall>n\<le>length tr. card (uncancelled (take n tr)) \<le> 1"
    and "card (uncancelled (tr @ [e])) \<le> 1"
  shows "\<forall>n\<le>length (tr @ [e]). card (uncancelled (take n (tr @ [e]))) \<le> 1"
proof (intro allI impI)
  fix n assume n: "n \<le> length (tr @ [e])"
  show "card (uncancelled (take n (tr @ [e]))) \<le> 1"
  proof (cases "n \<le> length tr")
    case True
    with assms(1) show ?thesis by simp
  next
    case False
    with n have "n = Suc (length tr)" by simp
    with assms(2) show ?thesis by simp
  qed
qed

lemma precedes_in_set: "precedes a b tr \<Longrightarrow> a \<in> set tr \<and> b \<in> set tr"
  by (induction tr) (auto split: if_splits)

lemma precedes_append: "precedes a b tr \<Longrightarrow> precedes a b (tr @ rest)"
  by (induction tr) (auto split: if_splits)

lemma precedes_later: "a \<in> set tr \<Longrightarrow> precedes a b (tr @ rest @ [b])"
  by (induction tr) auto

lemma precedes_last_two: "precedes a b (tr @ [a, b])"
  by (induction tr) auto

lemma inv_fresh: "client_inv (fresh_client st)"
  by (simp add: client_inv_def fresh_client_def uncancelled_def)

lemma fetch_begin_hit_world: "fetch_begin js w app force = (w', Inl cached) \<Longrightarrow> w' = w"
  by (auto simp: fetch_begin_def Let_def split: option.splits if_splits)

lemma inv_start_hit:
  assumes "client_inv c" and "fetch_begin js (world_of c) app force = (w', Inl cached)"
  shows "client_inv \<lparr>world_of = w',
           calls = calls c @ [\<lparr>call_app = app, call_signal = None,
                               call_phase = Finished (Inr cached)\<rparr>]\<rparr>"
proof -
  from assms(2) have w: "w' = world_of c" by (rule fetch_begin_hit_world)
  from assms(1) show ?thesis
    unfolding client_inv_def w
    by (auto simp: nth_append less_Suc_eq split: if_splits)
qed

lemma fetch_begin_request_world:
  assumes "fetch_begin js w app force = (w', Inr s)"
  shows "s = allocated w \<and> controller w' = Some s \<and> allocated w' = Suc s \<and>
         session w' = session w \<and>
         aborted w' = (case controller w of None \<Rightarrow> aborted w | Some c \<Rightarrow> insert c (aborted w)) \<and>
         trace w' = trace w @ (case controller w of None \<Rightarrow> [] | Some c \<Rightarrow> [Aborted c])
                     @ [Requested s (searchParams app)]"
  using assms by (auto simp: fetch_begin_def Let_def split: option.splits if_splits)

lemma inv_start_request:
  assumes inv: "client_inv c" and b: "fetch_begin js (world_of c) app force = (w', Inr s)"
  shows "client_inv \<lparr>world_of = w',
           calls = calls c @ [\<lparr>call_app = app, call_signal = Some s,
                               call_phase = AwaitingResponse\<rparr>]\<rparr>"
proof -
  let ?w = "world_of c"
  let ?mid = "trace ?w @ (case controller ?w of None \<Rightarrow> [] | Some k \<Rightarrow> [Aborted k])"
  let ?new = "\<lparr>call_app = app, call_signal = Some s, call_phase = AwaitingResponse\<rparr>"
  note f = fetch_begin_request_world [OF b]
  from f have tr: "trace w' = ?mid @ [Requested s (searchParams app)]" by simp
  from inv have i1: "\<forall>t\<in>aborted ?w. t < allocated ?w"
    and i2: "\<forall>t. controller ?w = Some t \<longrightarrow> allocated ?w = Suc t \<and> t \<notin> aborted ?w"
    and i3: "\<forall>t\<in>set (tokens_of (calls c)). controller ?w \<noteq> Some t \<longrightarrow> Aborted t \<in> set (trace ?w)"
    and i4: "\<forall>t. Aborted t \<in> set (trace ?w) \<longrightarrow> t \<in> aborted ?w"
    and i5: "\<forall>i j si sj. i < j \<and> j < length (calls c) \<and> call_signal (calls c ! i) = Some si \<and>
          call_signal (calls c ! j) = Some sj \<longrightarrow>
          precedes (Aborted si) (Requested sj (searchParams (call_app (calls c ! j)))) (trace ?w)"
    and i6: "\<forall>t. t \<in> uncancelled (trace ?w) \<longrightarrow> controller ?w = Some t"
    and i7: "\<forall>n\<le>length (trace ?w). card (uncancelled (take n (trace ?w))) \<le> 1"
    unfolding client_inv_def by blast+
  have a1: "\<forall>t\<in>aborted w'. t < allocated w'"
    using i1 i2 f by (auto split: option.splits)
  have a2: "\<forall>t. controller w' = Some t \<longrightarrow> allocated w' = Suc t \<and> t \<notin> aborted w'"
    using i1 i2 f by (auto split: option.splits)
  have a3: "\<forall>t\<in>set (tokens_of (calls c @ [?new])). controller w' \<noteq> Some t \<longrightarrow>
      Aborted t \<in> set (trace w')"
  proof (intro ballI impI)
    fix t assume t: "t \<in> set (tokens_of (calls c @ [?new]))" and nc: "controller w' \<noteq> Some t"
    from nc f have "t \<noteq> s" by auto
    with t have tin: "t \<in> set (tokens_of (calls c))" by simp
    show "Aborted t \<in> set (trace w')"
    proof (cases "controller ?w = Some t")
      case True
      with tr show ?thesis by simp
    next
      case False
      with i3 tin have "Aborted t \<in> set (trace ?w)" by blast
      with tr show ?thesis by simp
    qed
  qed
  have a4: "\<forall>t. Aborted t \<in> set (trace w') \<longrightarrow> t \<in> aborted w'"
    using i4 f by (auto split: option.splits)
  have a5: "\<forall>i j si sj. i < j \<and> j < length (calls c @ [?new]) \<and>
        call_signal ((calls c @ [?new]) ! i) = Some si \<and>
        call_signal ((calls c @ [?new]) ! j) = Some sj \<longrightarrow>
        precedes (Aborted si) (Requested sj (searchParams (call_app ((calls c @ [?new]) ! j))))
          (trace w')"
  proof (intro allI impI)
    fix i j si sj
    assume h: "i < j \<and> j < length (calls c @ [?new]) \<and>
        call_signal ((calls c @ [?new]) ! i) = Some si \<and>
        call_signal ((calls c @ [?new]) ! j) = Some sj"
    then have ilt: "i < length (calls c)" by simp
    with h have si: "call_signal (calls c ! i) = Some si" by (simp add: nth_append)
    show "precedes (Aborted si) (Requested sj (searchParams (call_app ((calls c @ [?new]) ! j))))
          (trace w')"
    proof (cases "j < length (calls c)")
      case True
      with h have "call_signal (calls c ! j) = Some sj" by (simp add: nth_append)
      with i5 h True si
      have "precedes (Aborted si) (Requested sj (searchParams (call_app (calls c ! j)))) (trace ?w)"
        by blast
      then have "precedes (Aborted si) (Requested sj (searchParams (call_app (calls c ! j))))
          (trace ?w @ ((case controller ?w of None \<Rightarrow> [] | Some k \<Rightarrow> [Aborted k])
             @ [Requested s (searchParams app)]))"
        by (rule precedes_append)
      with True tr show ?thesis by (simp add: nth_append)
    next
      case False
      with h have j: "j = length (calls c)" by simp
      with h have sj: "sj = s" by simp
      from si ilt have tin: "si \<in> set (tokens_of (calls c))" by (rule tokens_of_nth [rotated])
      have "precedes (Aborted si) (Requested s (searchParams app)) (trace w')"
      proof (cases "controller ?w = Some si")
        case True
        with tr have "trace w' = trace ?w @ [Aborted si, Requested s (searchParams app)]" by simp
        then show ?thesis by (simp only: precedes_last_two)
      next
        case False
        with i3 tin have "Aborted si \<in> set (trace ?w)" by blast
        from precedes_later [OF this,
            of "Requested s (searchParams app)"
               "case controller ?w of None \<Rightarrow> [] | Some k \<Rightarrow> [Aborted k]"]
        show ?thesis using tr by simp
      qed
      with j sj show ?thesis by simp
    qed
  qed
  have u_mid: "uncancelled ?mid = {}"
  proof (cases "controller ?w")
    case None
    with i6 show ?thesis by auto
  next
    case (Some k)
    with i6 have "uncancelled (trace ?w) \<subseteq> {k}" by auto
    with Some show ?thesis by (auto simp: uncancelled_snoc)
  qed
  have u_new: "uncancelled (trace w') = {s}"
    unfolding tr by (simp only: uncancelled_snoc u_mid) simp
  have a6: "\<forall>t. t \<in> uncancelled (trace w') \<longrightarrow> controller w' = Some t"
    using u_new f by simp
  have mid: "\<forall>n\<le>length ?mid. card (uncancelled (take n ?mid)) \<le> 1"
  proof (cases "controller ?w")
    case None
    with i7 show ?thesis by simp
  next
    case (Some k)
    have "card (uncancelled (trace ?w @ [Aborted k])) \<le> 1"
      using u_mid Some by simp
    from card_prefixes_snoc [OF i7 this] Some show ?thesis by simp
  qed
  have a7: "\<forall>n\<le>length (trace w'). card (uncancelled (take n (trace w'))) \<le> 1"
  proof -
    have "card (uncancelled (trace w')) \<le> 1" using u_new by simp
    then show ?thesis
      unfolding tr by (rule card_prefixes_snoc [OF mid])
  qed
  from a1 a2 a3 a4 a5 a6 a7 show ?thesis
    unfolding client_inv_def by simp
qed

lemma set_phase_keeps:
  "world_of (set_phase c i p) = world_of c"
  "length (calls (set_phase c i p)) = length (calls c)"
  "call_signal (calls (set_phase c i p) ! j) = call_signal (calls c ! j)"
  "call_app (calls (set_phase c i p) ! j) = call_app (calls c ! j)"
  by (simp_all add: set_phase_def)

lemma set_phase_tokens: "i < length (calls c) \<Longrightarrow> tokens_of (calls (set_phase c i p)) = tokens_of (calls c)"
  by (simp add: set_phase_def)

lemma inv_set_phase:
  assumes "client_inv c" and "i < length (calls c)"
  shows "client_inv (set_phase c i p)"
  using assms(1) unfolding client_inv_def
  by (simp only: set_phase_keeps set_phase_tokens [OF assms(2)])

lemma inv_world:
  assumes "client_inv c"
    and "controller w' = controller (world_of c)" and "aborted w' = aborted (world_of c)"
    and "allocated w' = allocated (world_of c)" and "trace w' = trace (world_of c)"
  shows "client_inv (c\<lparr>world_of := w'\<rparr>)"
proof -
  have sel: "world_of (c\<lparr>world_of := w'\<rparr>) = w'" "calls (c\<lparr>world_of := w'\<rparr>) = calls c"
    by simp_all
  from assms(1) show ?thesis
    unfolding client_inv_def by (simp only: sel assms(2-5))
qed

lemma inv_body:
  assumes "client_inv c" and "i < length (calls c)"
    and "fetch_body js now (world_of c) app parsed = (w', r)"
  shows "client_inv (set_phase (c\<lparr>world_of := w'\<rparr>) i p)"
proof -
  from fetch_body_world [OF assms(3)] assms(1) have "client_inv (c\<lparr>world_of := w'\<rparr>)"
    by (simp add: inv_world)
  moreover from assms(2) have "i < length (calls (c\<lparr>world_of := w'\<rparr>))" by simp
  ultimately show ?thesis by (rule inv_set_phase)
qed

lemma inv_perform: "perform js c a = Some c' \<Longrightarrow> client_inv c \<Longrightarrow> client_inv c'"
proof (cases a)
  case (Start app force)
  assume p: "perform js c a = Some c'" and inv: "client_inv c"
  obtain w' r where b: "fetch_begin js (world_of c) app force = (w', r)"
    by (cases "fetch_begin js (world_of c) app force")
  show ?thesis
  proof (cases r)
    case (Inl cached)
    with p Start b inv_start_hit [OF inv, of js app force w' cached] show ?thesis by auto
  next
    case (Inr s)
    with p Start b inv_start_request [OF inv, of js app force w' s] show ?thesis by auto
  qed
next
  case (Response i status)
  assume "perform js c a = Some c'" and "client_inv c"
  with Response show ?thesis
    by (auto simp: suspended_at_def inv_set_phase split: if_splits)
next
  case (Body i now parsed)
  assume p: "perform js c a = Some c'" and inv: "client_inv c"
  obtain w' r where b: "fetch_body js now (world_of c) (call_app (calls c ! i)) parsed = (w', r)"
    by (cases "fetch_body js now (world_of c) (call_app (calls c ! i)) parsed")
  with p Body have i: "i < length (calls c)" and c': "c' = set_phase (c\<lparr>world_of := w'\<rparr>) i (Finished r)"
    by (auto simp: suspended_at_def split: if_splits)
  from inv_body [OF inv i b] c' show ?thesis by simp
next
  case (Rejection i e)
  assume "perform js c a = Some c'" and "client_inv c"
  with Rejection show ?thesis
    by (auto simp: inv_set_phase split: if_splits)
qed

lemma inv_run: "run js c acts = Some c' \<Longrightarrow> client_inv c \<Longrightarrow> client_inv c'"
proof (induction acts arbitrary: c)
  case Nil
  then show ?case by simp
next
  case (Cons a acts)
  from Cons.prems(1) obtain c1 where p: "perform js c a = Some c1" and r: "run js c1 acts = Some c'"
    by (auto split: option.splits)
  from inv_perform [OF p Cons.prems(2)] Cons.IH [OF r] show ?case by blast
qed

lemma set_phase_other: "j \<noteq> i \<Longrightarrow> calls (set_phase c j p) ! i = calls c ! i"
  by (simp add: set_phase_def)

lemma set_phase_same:
  "i < length (calls c) \<Longrightarrow> calls (set_phase c i p) ! i = (calls c ! i)\<lparr>call_phase := p\<rparr>"
  by (simp add: set_phase_def)

lemma fetch_begin_aborted:
  "fetch_begin js w app force = (w', r) \<Longrightarrow> aborted w \<subseteq> aborted w'"
  by (auto simp: fetch_begin_def Let_def split: option.splits if_splits)

lemma superseded_perform:
  assumes p: "perform js c a = Some c'" and ra: "respects_abort c a" and d: "superseded c i"
  shows "superseded c' i"
proof -
  from d obtain s where i: "i < length (calls c)" and s: "call_signal (calls c ! i) = Some s"
    and ab: "s \<in> aborted (world_of c)"
    and ph: "pending (calls c ! i) \<or> (\<exists>e. call_phase (calls c ! i) = Finished (Inl e))"
    by (auto simp: superseded_def split: option.splits)
  show ?thesis
  proof (cases a)
    case (Start app force)
    obtain w' r where b: "fetch_begin js (world_of c) app force = (w', r)"
      by (cases "fetch_begin js (world_of c) app force")
    from fetch_begin_aborted [OF b] ab have "s \<in> aborted w'" by blast
    with p Start b i s ph show ?thesis
      by (cases r) (auto simp: superseded_def nth_append)
  next
    case (Response j status)
    with p have c': "c' = set_phase c j (case fetch_response status of
                                  Some e \<Rightarrow> Finished (Inl e) | None \<Rightarrow> AwaitingBody)"
      by (auto split: if_splits)
    from ra Response s ab have "j \<noteq> i" by (auto simp: live_def)
    with c' i s ab ph show ?thesis
      by (simp add: superseded_def set_phase_other set_phase_keeps)
  next
    case (Body j now parsed)
    obtain w' r where b: "fetch_body js now (world_of c) (call_app (calls c ! j)) parsed = (w', r)"
      by (cases "fetch_body js now (world_of c) (call_app (calls c ! j)) parsed")
    with p Body have c': "c' = set_phase (c\<lparr>world_of := w'\<rparr>) j (Finished r)"
      by (auto split: if_splits)
    from ra Body s ab have "j \<noteq> i" by (auto simp: live_def)
    with c' i s ab ph fetch_body_world [OF b] show ?thesis
      by (simp add: superseded_def set_phase_other set_phase_keeps)
  next
    case (Rejection j e)
    with p have j: "j < length (calls c)" and c': "c' = set_phase c j (Finished (Inl e))"
      by (auto split: if_splits)
    show ?thesis
    proof (cases "j = i")
      case True
      with c' i s ab show ?thesis
        by (simp add: superseded_def set_phase_same set_phase_keeps)
    next
      case False
      with c' i s ab ph show ?thesis
        by (simp add: superseded_def set_phase_other set_phase_keeps)
    qed
  qed
qed

lemma superseded_run:
  "run js c acts = Some c' \<Longrightarrow> run_respects_abort js c acts \<Longrightarrow> superseded c i \<Longrightarrow>
   superseded c' i"
proof (induction acts arbitrary: c)
  case Nil
  then show ?case by simp
next
  case (Cons a acts)
  from Cons.prems(1) obtain c1 where p: "perform js c a = Some c1" and r: "run js c1 acts = Some c'"
    by (auto split: option.splits)
  from Cons.prems(2) p have ra: "respects_abort c a" and rr: "run_respects_abort js c1 acts"
    by simp_all
  from superseded_perform [OF p ra Cons.prems(3)] Cons.IH [OF r rr] show ?case by blast
qed

lemma inv_earlier_aborted:
  assumes inv: "client_inv c" and "i < j" and "j < length (calls c)"
    and "call_signal (calls c ! i) = Some si" and "call_signal (calls c ! j) = Some sj"
  shows "precedes (Aborted si) (Requested sj (searchParams (call_app (calls c ! j))))
           (trace (world_of c)) \<and> si \<in> aborted (world_of c)"
proof -
  from inv have i4: "\<forall>t. Aborted t \<in> set (trace (world_of c)) \<longrightarrow> t \<in> aborted (world_of c)"
    and i5: "\<forall>i j si sj. i < j \<and> j < length (calls c) \<and> call_signal (calls c ! i) = Some si \<and>
          call_signal (calls c ! j) = Some sj \<longrightarrow>
          precedes (Aborted si) (Requested sj (searchParams (call_app (calls c ! j))))
            (trace (world_of c))"
    unfolding client_inv_def by blast+
  from i5 assms(2-5)
  have pr: "precedes (Aborted si) (Requested sj (searchParams (call_app (calls c ! j))))
           (trace (world_of c))"
    by blast
  from precedes_in_set [OF pr] i4 have "si \<in> aborted (world_of c)" by blast
  with pr show ?thesis by blast
qed

lemma inv_live_is_latest:
  assumes inv: "client_inv c" and i: "i < length (calls c)"
    and s: "call_signal (calls c ! i) = Some s" and na: "s \<notin> aborted (world_of c)"
  shows "controller (world_of c) = Some s \<and>
         (\<forall>j. i < j \<and> j < length (calls c) \<longrightarrow> call_signal (calls c ! j) = None)"
proof
  from inv have i3: "\<forall>t\<in>set (tokens_of (calls c)). controller (world_of c) \<noteq> Some t \<longrightarrow>
          Aborted t \<in> set (trace (world_of c))"
    and i4: "\<forall>t. Aborted t \<in> set (trace (world_of c)) \<longrightarrow> t \<in> aborted (world_of c)"
    unfolding client_inv_def by blast+
  from tokens_of_nth [OF i s] i3 i4 na show "controller (world_of c) = Some s" by blast
  show "\<forall>j. i < j \<and> j < length (calls c) \<longrightarrow> call_signal (calls c ! j) = None"
  proof (intro allI impI)
    fix j assume j: "i < j \<and> j < length (calls c)"
    show "call_signal (calls c ! j) = None"
    proof (cases "call_signal (calls c ! j)")
      case None
      then show ?thesis .
    next
      case (Some sj)
      from inv_earlier_aborted [OF inv _ _ s Some] j na show ?thesis by blast
    qed
  qed
qed

lemma perform_applies:
  assumes inv: "client_inv c" and p: "perform js c a = Some c'" and ra: "respects_abort c a"
  shows "(session (world_of c') = session (world_of c) \<and>
          (\<forall>i r. i < length (calls c) \<and> pending (calls c ! i) \<longrightarrow>
              call_phase (calls c' ! i) \<noteq> Finished (Inr r))) \<or>
         (\<exists>i s r. i < length (calls c) \<and> call_signal (calls c ! i) = Some s \<and>
              controller (world_of c) = Some s \<and>
              (\<forall>j. i < j \<and> j < length (calls c) \<longrightarrow> call_signal (calls c ! j) = None) \<and>
              call_phase (calls c' ! i) = Finished (Inr r) \<and>
              session (world_of c') =
                writeCache js (session (world_of c)) (cacheKey (call_app (calls c ! i))) r)"
proof (cases a)
  case (Start app force)
  obtain w' r where b: "fetch_begin js (world_of c) app force = (w', r)"
    by (cases "fetch_begin js (world_of c) app force")
  from b have "session w' = session (world_of c)"
    using fetch_begin_session [of js "world_of c" app force] by simp
  with p Start b show ?thesis
    by (cases r) (auto simp: nth_append pending_def)
next
  case (Response j status)
  with p have c': "c' = set_phase c j (case fetch_response status of
                                  Some e \<Rightarrow> Finished (Inl e) | None \<Rightarrow> AwaitingBody)"
    and j: "j < length (calls c)"
    by (auto simp: suspended_at_def split: if_splits)
  have "call_phase (calls c' ! i) \<noteq> Finished (Inr r)" if "pending (calls c ! i)" for i r
    using that c' j
    by (cases "i = j") (auto simp: set_phase_same set_phase_other pending_def split: option.splits)
  with c' show ?thesis by (simp add: set_phase_keeps)
next
  case (Body j now parsed)
  obtain w' r where b: "fetch_body js now (world_of c) (call_app (calls c ! j)) parsed = (w', r)"
    by (cases "fetch_body js now (world_of c) (call_app (calls c ! j)) parsed")
  with p Body have c': "c' = set_phase (c\<lparr>world_of := w'\<rparr>) j (Finished r)"
    by (auto split: if_splits)
  from ra Body obtain s where j: "j < length (calls c)" and s: "call_signal (calls c ! j) = Some s"
    and na: "s \<notin> aborted (world_of c)"
    by (auto simp: live_def split: option.splits)
  have others: "call_phase (calls c' ! i) \<noteq> Finished (Inr q)" if "pending (calls c ! i)" "i \<noteq> j" for i q
    using that c' by (auto simp: set_phase_other pending_def)
  show ?thesis
  proof (cases r)
    case (Inl e)
    with b have "w' = world_of c"
      by (auto simp: fetch_body_def Let_def split: if_splits)
    moreover have "call_phase (calls c' ! i) \<noteq> Finished (Inr q)" if "pending (calls c ! i)" for i q
      using that others c' j Inl by (cases "i = j") (auto simp: set_phase_same)
    ultimately show ?thesis using c' by (simp add: set_phase_keeps)
  next
    case (Inr rec)
    with b have w': "session w' = writeCache js (session (world_of c)) (cacheKey (call_app (calls c ! j))) rec"
      by (auto simp: fetch_body_def Let_def split: if_splits)
    from c' j Inr have "call_phase (calls c' ! j) = Finished (Inr rec)"
      by (simp add: set_phase_same)
    with inv_live_is_latest [OF inv j s na] w' c' j s show ?thesis
      by (auto simp: set_phase_keeps)
  qed
next
  case (Rejection j e)
  with p have c': "c' = set_phase c j (Finished (Inl e))" and j: "j < length (calls c)"
    by (auto split: if_splits)
  have "call_phase (calls c' ! i) \<noteq> Finished (Inr r)" if "pending (calls c ! i)" for i r
    using that c' j
    by (cases "i = j") (auto simp: set_phase_same set_phase_other pending_def)
  with c' show ?thesis by (simp add: set_phase_keeps)
qed

lemma rejection_applies_nothing:
  assumes "perform js c (Rejection i e) = Some c'"
  shows "session (world_of c') = session (world_of c) \<and>
         call_phase (calls c' ! i) = Finished (Inl e)"
proof -
  from assms have i: "i < length (calls c)" and c': "c' = set_phase c i (Finished (Inl e))"
    by (auto split: if_splits)
  from i c' show ?thesis by (simp add: set_phase_same set_phase_keeps)
qed

lemma response_is_taken:
  assumes "j < length (calls c)" and "call_phase (calls c ! j) = AwaitingResponse"
  shows "\<exists>c'. perform js c (Response j status) = Some c' \<and>
           session (world_of c') = session (world_of c) \<and>
           call_phase (calls c' ! j) =
             (if ok status then AwaitingBody
              else Finished (Inl (Error (str ''Steam Store API responded with ''
                                          @ decimal status))))"
  using assms
  by (simp add: suspended_at_def fetch_response_def set_phase_same set_phase_keeps
      del: str_Cons)

lemma body_is_applied:
  assumes "j < length (calls c)" and "call_phase (calls c ! j) = AwaitingBody"
    and "map_of m (call_app (calls c ! j)) = Some entry" and "success entry"
  shows "\<exists>c'. perform js c (Body j now (Some m)) = Some c' \<and>
           call_phase (calls c' ! j) =
             Finished (Inr (normalize now (call_app (calls c ! j)) (data entry))) \<and>
           session (world_of c') =
             writeCache js (session (world_of c)) (cacheKey (call_app (calls c ! j)))
               (normalize now (call_app (calls c ! j)) (data entry))"
  using assms
  by (simp add: suspended_at_def fetch_body_def Let_def set_phase_same set_phase_keeps)

text \<open>
  C4, as the code has it.  In every configuration that a fresh client reaches by any
  sequence of actions:
  \<^item> for two calls that went to the network, the abort of the earlier call's signal
    precedes the later call's request in the trace, and the earlier signal is aborted;
  \<^item> after every prefix of the trace at most one request is uncancelled;
  \<^item> the signal of the current controller is not aborted;
  \<^item> an action that respects the abort either leaves the cache as it is and lets no
    suspended call return a record, or it is the body arriving for the call that holds
    the current controller, after which no call went to the network: that call returns
    its record and the cache is written with it;
  \<^item> a call that ends by rejection leaves the cache as it is and ends with the error;
  \<^item> a suspended call that a later network call has superseded stays suspended or ends
    with an error, whatever happens later, as long as the abort is respected;
  \<^item> a response that arrives for a call that awaits it is taken, whether the signal of
    the call is aborted or not: the call goes on to read the body when the status is
    between 200 and 299, and ends with the status error otherwise, the cache left as it
    is;
  \<^item> a body that arrives with a successful entry for a call that awaits it is applied,
    whether the signal of the call is aborted or not: the call returns the normalized
    record and the cache is written with it.
\<close>

theorem overlapping_fetches:
  assumes "run js (fresh_client st) acts = Some c"
  shows
   "(\<forall>i j si sj. i < j \<and> j < length (calls c) \<and> call_signal (calls c ! i) = Some si \<and>
        call_signal (calls c ! j) = Some sj \<longrightarrow>
        precedes (Aborted si) (Requested sj (searchParams (call_app (calls c ! j))))
          (trace (world_of c)) \<and>
        si \<in> aborted (world_of c)) \<and>
    (\<forall>n\<le>length (trace (world_of c)). card (uncancelled (take n (trace (world_of c)))) \<le> 1) \<and>
    (\<forall>s. controller (world_of c) = Some s \<longrightarrow> s \<notin> aborted (world_of c)) \<and>
    (\<forall>a c'. perform js c a = Some c' \<and> respects_abort c a \<longrightarrow>
        (session (world_of c') = session (world_of c) \<and>
         (\<forall>i r. i < length (calls c) \<and> pending (calls c ! i) \<longrightarrow>
             call_phase (calls c' ! i) \<noteq> Finished (Inr r))) \<or>
        (\<exists>i s r. i < length (calls c) \<and> call_signal (calls c ! i) = Some s \<and>
             controller (world_of c) = Some s \<and>
             (\<forall>j. i < j \<and> j < length (calls c) \<longrightarrow> call_signal (calls c ! j) = None) \<and>
             call_phase (calls c' ! i) = Finished (Inr r) \<and>
             session (world_of c') =
               writeCache js (session (world_of c)) (cacheKey (call_app (calls c ! i))) r)) \<and>
    (\<forall>i e c'. perform js c (Rejection i e) = Some c' \<longrightarrow>
        session (world_of c') = session (world_of c) \<and>
        call_phase (calls c' ! i) = Finished (Inl e)) \<and>
    (\<forall>later c' i j si sj. run js c later = Some c' \<and> run_respects_abort js c later \<and>
        i < j \<and> j < length (calls c) \<and>
        call_signal (calls c ! i) = Some si \<and> call_signal (calls c ! j) = Some sj \<and>
        pending (calls c ! i) \<longrightarrow>
        pending (calls c' ! i) \<or> (\<exists>e. call_phase (calls c' ! i) = Finished (Inl e))) \<and>
    (\<forall>j status. j < length (calls c) \<and> call_phase (calls c ! j) = AwaitingResponse \<longrightarrow>
        (\<exists>c'. perform js c (Response j status) = Some c' \<and>
           session (world_of c') = session (world_of c) \<and>
           call_phase (calls c' ! j) =
             (if ok status then AwaitingBody
              else Finished (Inl (Error (str ''Steam Store API responded with ''
                                          @ decimal status)))))) \<and>
    (\<forall>j now m entry. j < length (calls c) \<and> call_phase (calls c ! j) = AwaitingBody \<and>
        map_of m (call_app (calls c ! j)) = Some entry \<and> success entry \<longrightarrow>
        (\<exists>c'. perform js c (Body j now (Some m)) = Some c' \<and>
           call_phase (calls c' ! j) =
             Finished (Inr (normalize now (call_app (calls c ! j)) (data entry))) \<and>
           session (world_of c') =
             writeCache js (session (world_of c)) (cacheKey (call_app (calls c ! j)))
               (normalize now (call_app (calls c ! j)) (data entry))))"
proof -
  from inv_run [OF assms inv_fresh] have inv: "client_inv c" .
  have 1: "\<forall>i j si sj. i < j \<and> j < length (calls c) \<and> call_signal (calls c ! i) = Some si \<and>
        call_signal (calls c ! j) = Some sj \<longrightarrow>
        precedes (Aborted si) (Requested sj (searchParams (call_app (calls c ! j))))
          (trace (world_of c)) \<and>
        si \<in> aborted (world_of c)"
    using inv_earlier_aborted [OF inv] by blast
  from inv have 2: "\<forall>n\<le>length (trace (world_of c)).
      card (uncancelled (take n (trace (world_of c)))) \<le> 1"
    and 3: "\<forall>s. controller (world_of c) = Some s \<longrightarrow> s \<notin> aborted (world_of c)"
    unfolding client_inv_def by blast+
  have 4: "\<forall>a c'. perform js c a = Some c' \<and> respects_abort c a \<longrightarrow>
        (session (world_of c') = session (world_of c) \<and>
         (\<forall>i r. i < length (calls c) \<and> pending (calls c ! i) \<longrightarrow>
             call_phase (calls c' ! i) \<noteq> Finished (Inr r))) \<or>
        (\<exists>i s r. i < length (calls c) \<and> call_signal (calls c ! i) = Some s \<and>
             controller (world_of c) = Some s \<and>
             (\<forall>j. i < j \<and> j < length (calls c) \<longrightarrow> call_signal (calls c ! j) = None) \<and>
             call_phase (calls c' ! i) = Finished (Inr r) \<and>
             session (world_of c') =
               writeCache js (session (world_of c)) (cacheKey (call_app (calls c ! i))) r)"
    using perform_applies [OF inv] by blast
  have 5: "\<forall>i e c'. perform js c (Rejection i e) = Some c' \<longrightarrow>
        session (world_of c') = session (world_of c) \<and>
        call_phase (calls c' ! i) = Finished (Inl e)"
    using rejection_applies_nothing by blast
  have 6: "\<forall>later c' i j si sj. run js c later = Some c' \<and> run_respects_abort js c later \<and>
        i < j \<and> j < length (calls c) \<and>
        call_signal (calls c ! i) = Some si \<and> call_signal (calls c ! j) = Some sj \<and>
        pending (calls c ! i) \<longrightarrow>
        pending (calls c' ! i) \<or> (\<exists>e. call_phase (calls c' ! i) = Finished (Inl e))"
  proof (intro allI impI)
    fix later c' i j si sj
    assume h: "run js c later = Some c' \<and> run_respects_abort js c later \<and>
        i < j \<and> j < length (calls c) \<and>
        call_signal (calls c ! i) = Some si \<and> call_signal (calls c ! j) = Some sj \<and>
        pending (calls c ! i)"
    then have "si \<in> aborted (world_of c)" using 1 by blast
    with h have "superseded c i" by (simp add: superseded_def)
    with h have "superseded c' i" using superseded_run by blast
    then show "pending (calls c' ! i) \<or> (\<exists>e. call_phase (calls c' ! i) = Finished (Inl e))"
      by (simp add: superseded_def)
  qed
  have 7: "\<forall>j now m entry. j < length (calls c) \<and> call_phase (calls c ! j) = AwaitingBody \<and>
        map_of m (call_app (calls c ! j)) = Some entry \<and> success entry \<longrightarrow>
        (\<exists>c'. perform js c (Body j now (Some m)) = Some c' \<and>
           call_phase (calls c' ! j) =
             Finished (Inr (normalize now (call_app (calls c ! j)) (data entry))) \<and>
           session (world_of c') =
             writeCache js (session (world_of c)) (cacheKey (call_app (calls c ! j)))
               (normalize now (call_app (calls c ! j)) (data entry)))"
  proof (intro allI impI)
    fix j now and m :: "(js_string \<times> SteamApiResponse) list" and entry :: SteamApiResponse
    assume h: "j < length (calls c) \<and> call_phase (calls c ! j) = AwaitingBody \<and>
        map_of m (call_app (calls c ! j)) = Some entry \<and> success entry"
    then show "\<exists>c'. perform js c (Body j now (Some m)) = Some c' \<and>
           call_phase (calls c' ! j) =
             Finished (Inr (normalize now (call_app (calls c ! j)) (data entry))) \<and>
           session (world_of c') =
             writeCache js (session (world_of c)) (cacheKey (call_app (calls c ! j)))
               (normalize now (call_app (calls c ! j)) (data entry))"
      using body_is_applied [of j c m entry js now] by blast
  qed
  have 8: "\<forall>j status. j < length (calls c) \<and> call_phase (calls c ! j) = AwaitingResponse \<longrightarrow>
        (\<exists>c'. perform js c (Response j status) = Some c' \<and>
           session (world_of c') = session (world_of c) \<and>
           call_phase (calls c' ! j) =
             (if ok status then AwaitingBody
              else Finished (Inl (Error (str ''Steam Store API responded with ''
                                          @ decimal status)))))"
    using response_is_taken by blast
  from 1 2 3 4 5 6 8 7 show ?thesis by (intro conjI)
qed

lemma two_refreshes:
  "\<exists>c. run demo_codec (fresh_client demo_storage)
          [Start (str ''440'') True, Start (str ''440'') True] = Some c \<and>
       length (calls c) = 2 \<and> call_signal (calls c ! 0) = Some 0 \<and>
       call_signal (calls c ! 1) = Some 1 \<and> pending (calls c ! 0) \<and>
       call_app (calls c ! 1) = str ''440'' \<and>
       trace (world_of c) = [Requested 0 (searchParams (str ''440'')), Aborted 0,
                             Requested 1 (searchParams (str ''440''))] \<and>
       run demo_codec c [Rejection 0 AbortError, Response 1 200,
                         Body 1 (str ''2024-10-31T12:00:00.000Z'') (Some demo_entries)] \<noteq> None \<and>
       run_respects_abort demo_codec c
         [Rejection 0 AbortError, Response 1 200,
          Body 1 (str ''2024-10-31T12:00:00.000Z'') (Some demo_entries)] \<and>
       map_option (\<lambda>c'. (map call_phase (calls c'),
                          items (session (world_of c')) (str ''gds:store:440'')))
         (run demo_codec c [Rejection 0 AbortError, Response 1 200,
                            Body 1 (str ''2024-10-31T12:00:00.000Z'') (Some demo_entries)]) =
         Some ([Finished (Inl AbortError), Finished (Inr demo_record)], Some (str ''{440}''))"
  by (simp add: fresh_client_def demo_storage_def fetch_begin_def Let_def pending_def
      suspended_at_def live_def set_phase_def fetch_response_def ok_def fetch_body_def
      demo_entries_def demo_record_def writeCache_def setItem_def demo_codec_def cacheKey_def
      normalize_def default_to_def no_data_def)

theorem overlapping_fetches_witness:
  "\<exists>c c'. run demo_codec (fresh_client demo_storage)
            [Start (str ''440'') True, Start (str ''440'') True] = Some c \<and>
     run demo_codec c [Rejection 0 AbortError, Response 1 200,
                       Body 1 (str ''2024-10-31T12:00:00.000Z'') (Some demo_entries)] = Some c' \<and>
     run_respects_abort demo_codec c
       [Rejection 0 AbortError, Response 1 200,
        Body 1 (str ''2024-10-31T12:00:00.000Z'') (Some demo_entries)] \<and>
     precedes (Aborted 0) (Requested 1 (searchParams (str ''440''))) (trace (world_of c)) \<and>
     0 \<in> aborted (world_of c) \<and>
     (pending (calls c' ! 0) \<or> (\<exists>e. call_phase (calls c' ! 0) = Finished (Inl e))) \<and>
     map call_phase (calls c') = [Finished (Inl AbortError), Finished (Inr demo_record)] \<and>
     items (session (world_of c')) (str ''gds:store:440'') = Some (str ''{440}'')"
proof -
  from two_refreshes obtain c where
    r: "run demo_codec (fresh_client demo_storage)
          [Start (str ''440'') True, Start (str ''440'') True] = Some c"
    and l: "length (calls c) = 2" and s0: "call_signal (calls c ! 0) = Some 0"
    and s1: "call_signal (calls c ! 1) = Some 1" and p0: "pending (calls c ! 0)"
    and a1: "call_app (calls c ! 1) = str ''440''"
    and ne: "run demo_codec c [Rejection 0 AbortError, Response 1 200,
                         Body 1 (str ''2024-10-31T12:00:00.000Z'') (Some demo_entries)] \<noteq> None"
    and ra: "run_respects_abort demo_codec c
         [Rejection 0 AbortError, Response 1 200,
          Body 1 (str ''2024-10-31T12:00:00.000Z'') (Some demo_entries)]"
    and fin: "map_option (\<lambda>c'. (map call_phase (calls c'),
                          items (session (world_of c')) (str ''gds:store:440'')))
         (run demo_codec c [Rejection 0 AbortError, Response 1 200,
                            Body 1 (str ''2024-10-31T12:00:00.000Z'') (Some demo_entries)]) =
         Some ([Finished (Inl AbortError), Finished (Inr demo_record)], Some (str ''{440}''))"
    by (elim exE conjE)
  from ne obtain c' where
    r': "run demo_codec c [Rejection 0 AbortError, Response 1 200,
                         Body 1 (str ''2024-10-31T12:00:00.000Z'') (Some demo_entries)] = Some c'"
    by (auto simp only: not_None_eq)
  note t = overlapping_fetches [OF r]
  have h1: "(0::nat) < 1 \<and> 1 < length (calls c) \<and> call_signal (calls c ! 0) = Some 0 \<and>
      call_signal (calls c ! 1) = Some 1"
    using l s0 s1 by simp
  from t [THEN conjunct1, rule_format, OF h1] a1
  have c1: "precedes (Aborted 0) (Requested 1 (searchParams (str ''440''))) (trace (world_of c))"
    and c1': "0 \<in> aborted (world_of c)"
    by simp_all
  have h6: "run demo_codec c [Rejection 0 AbortError, Response 1 200,
        Body 1 (str ''2024-10-31T12:00:00.000Z'') (Some demo_entries)] = Some c' \<and>
      run_respects_abort demo_codec c
        [Rejection 0 AbortError, Response 1 200,
         Body 1 (str ''2024-10-31T12:00:00.000Z'') (Some demo_entries)] \<and>
      (0::nat) < 1 \<and> 1 < length (calls c) \<and> call_signal (calls c ! 0) = Some 0 \<and>
      call_signal (calls c ! 1) = Some 1 \<and> pending (calls c ! 0)"
    using r' ra l s0 s1 p0 by simp
  from t [THEN conjunct2, THEN conjunct2, THEN conjunct2, THEN conjunct2, THEN conjunct2,
      THEN conjunct1, rule_format, OF h6]
  have c2: "pending (calls c' ! 0) \<or> (\<exists>e. call_phase (calls c' ! 0) = Finished (Inl e))" .
  from fin r' have c3: "map call_phase (calls c') =
      [Finished (Inl AbortError), Finished (Inr demo_record)]"
    and c4: "items (session (world_of c')) (str ''gds:store:440'') = Some (str ''{440}'')"
    by simp_all
  show ?thesis
    by (rule exI [of _ c], rule exI [of _ c']) (intro conjI r r' ra c1 c1' c2 c3 c4)
qed

text \<open>
  C4, as stated, fails.  Two forced refreshes overlap.  In the first run the response
  and the body of the later call arrive, and its record is cached; then the response and
  the body of the earlier call arrive all the same, although its signal is aborted: the
  earlier call returns its record too, and the cache entry of the later call is replaced
  by it, so two responses are applied.  In the second run the earlier call is rejected
  after the abort and the later one receives the status 503: both end with an error and
  nothing is written to the cache, so no response is applied.
\<close>

theorem superseded_fetch_overwrites_cache:
  "map_option (\<lambda>c. (map call_phase (calls c), aborted (world_of c),
                     items (session (world_of c)) (str ''gds:store:440'')))
     (run naming_codec (fresh_client demo_storage)
        [Start (str ''440'') True, Start (str ''440'') True, Response 1 200,
         Body 1 (str ''2024-10-31T12:00:00.000Z'') (Some demo_entries)]) =
   Some ([AwaitingResponse, Finished (Inr demo_record)], {0},
         Some (str ''440:Team Fortress 2'')) \<and>
   map_option (\<lambda>c. (map call_phase (calls c), aborted (world_of c),
                     items (session (world_of c)) (str ''gds:store:440'')))
     (run naming_codec (fresh_client demo_storage)
        [Start (str ''440'') True, Start (str ''440'') True, Response 1 200,
         Body 1 (str ''2024-10-31T12:00:00.000Z'') (Some demo_entries), Response 0 200,
         Body 0 (str ''2024-10-31T12:00:01.000Z'') (Some stale_entries)]) =
   Some ([Finished (Inr stale_record), Finished (Inr demo_record)], {0},
         Some (str ''440:Team Fortress'')) \<and>
   map_option (\<lambda>c. (map call_phase (calls c), aborted (world_of c),
                     items (session (world_of c)) (str ''gds:store:440'')))
     (run naming_codec (fresh_client demo_storage)
        [Start (str ''440'') True, Start (str ''440'') True, Rejection 0 AbortError,
         Response 1 503]) =
   Some ([Finished (Inl AbortError),
          Finished (Inl (Error (str ''Steam Store API responded with 503'')))], {0}, None)"
  by (simp add: fresh_client_def demo_storage_def fetch_begin_def Let_def pending_def
      suspended_at_def set_phase_def fetch_response_def ok_def decimal.simps fetch_body_def
      demo_entries_def stale_entries_def demo_record_def stale_record_def writeCache_def
      setItem_def naming_codec_def cacheKey_def normalize_def default_to_def no_data_def)

section \<open>The request\<close>

text \<open>
  A call that bypasses the cache issues one request, the last event of the trace, with
  the query parameters \<^verbatim>\<open>appids=<id>\<close>, \<^verbatim>\<open>cc=us\<close>, \<^verbatim>\<open>l=english\<close> and the fixed filter
  list, under the signal of the controller it has just installed.
\<close>

theorem fetch_request_parameters:
  "\<exists>s. controller (fst (fetch_begin js w app True)) = Some s \<and>
       snd (fetch_begin js w app True) = Inr s \<and>
       last (trace (fst (fetch_begin js w app True))) =
         Requested s
           [(''appids'', app), (''cc'', str ''us''), (''l'', str ''english''),
            (''filters'',
             str ''basic,price_overview,package_groups,platforms,release_date,developers,publishers,dlc'')]"
  by (simp add: fetch_begin_def Let_def searchParams_def split: option.splits)

end
